theory Spec2Isabelle
  imports Complex_Main "HOL-Library.AList" "HOL-Library.List_Lexorder" "HOL-Library.Char_ord"
begin

section \<open>Data model of \<open>server.py\<close>\<close>

text \<open>
  A Python \<open>dict\<close> keeps its keys in insertion order, so it is an association list:
  lookup is \<open>map_of\<close>, \<open>d[k] = v\<close> is \<open>AList.update\<close> (in place when the key is present,
  appended otherwise) and \<open>del d[k]\<close> is \<open>AList.delete\<close>.
\<close>

type_synonym ('k, 'v) dict = "('k \<times> 'v) list"

text \<open>
  A label record is the JSON object of one ledger line. The fields the program reads are
  \<open>id\<close>, \<open>user\<close>, \<open>label\<close> and \<open>ts\<close>; \<open>None\<close> is a missing key (or JSON \<open>null\<close>), which is
  what \<open>rec.get\<close> returns. Identifiers are strings; the other keys of the object are kept
  uninterpreted in \<open>rec_extra\<close>.
\<close>

record lrec =
  rec_id :: "string option"
  rec_user :: "string option"
  rec_label :: "string option"
  rec_ts :: "int option"
  rec_extra :: "(string \<times> string) list"

text \<open>
  The ledger file is its sequence of lines. A line is blank, fails \<open>json.loads\<close>
  (\<open>Corrupt\<close>), decodes to a JSON value that is not an object (\<open>NonDict\<close>, on which
  \<open>rec.get\<close> raises \<open>AttributeError\<close>), or decodes to a record.
\<close>

datatype line = Blank | Corrupt | NonDict | Rec lrec

text \<open>
  How the rewrite of \<open>remove_label\<close> and \<open>undo_last\<close> ends: it succeeds, \<open>open(tmp_path, "w")\<close>
  raises, a \<open>write\<close> raises after some complete lines, or \<open>os.replace\<close> raises.
\<close>

datatype tmp_outcome = TmpOk | TmpOpenFail | TmpWriteFail nat | TmpReplaceFail

text \<open>
  What one call observes of its environment: the two directory walks (the paths with a
  video extension, in \<open>os.walk\<close> order), the two readings of \<open>time.time()\<close> in seconds,
  whether reading the ledger raises, how the rewrite ends, whether the \<open>os.remove\<close> of the
  cleanup succeeds, and at which write (counted from 0) an append raises, if any; a failure
  to open the file for appending counts as a failure of write 0.
\<close>

record env =
  walk1 :: "string list"
  walk2 :: "string list"
  clock1 :: real
  clock2 :: real
  read_ok :: bool
  tmp_write :: tmp_outcome
  cleanup_ok :: bool
  append_fail :: "nat option"

text \<open>The two settings read from the process environment at start-up.\<close>

record config =
  ASSIGNMENT_TTL_SEC :: int
  SINGLE_LABEL_PER_VIDEO :: bool

text \<open>
  The fields of class \<open>State\<close>, and the contents of the two files it works on:
  \<open>labels_file\<close> is \<open>data/labels.jsonl\<close> and \<open>tmp_file\<close> is \<open>data/labels.jsonl.tmp\<close>
  (\<open>None\<close>: the file does not exist). A lease is the pair of its holder and its time.
\<close>

record state =
  videos :: "string list"
  assigned :: "(string, string \<times> real) dict"
  labeled_ids :: "string set"
  per_user_counts :: "(string, int) dict"
  active_users :: "string set"
  owner_map :: "(string, string) dict"
  balance_sig :: "(string list \<times> nat \<times> nat) option"
  last_undo :: "(string, lrec list) dict"
  labels_file :: "line list option"
  tmp_file :: "line list option"

section \<open>Helpers for Python idioms\<close>

text \<open>\<open>not v\<close> for a value that is \<open>None\<close> or a string.\<close>

definition truthy :: "string option \<Rightarrow> bool" where
  "truthy v = (case v of None \<Rightarrow> False | Some s \<Rightarrow> s \<noteq> [])"

text \<open>\<open>d.get(k, dflt)\<close>.\<close>

definition dict_get :: "('k, 'v) dict \<Rightarrow> 'k \<Rightarrow> 'v \<Rightarrow> 'v" where
  "dict_get d k dflt = (case map_of d k of None \<Rightarrow> dflt | Some v \<Rightarrow> v)"

text \<open>\<open>{k: f(k) for k in ks}\<close>.\<close>

definition dict_comp :: "('k \<Rightarrow> 'v) \<Rightarrow> 'k list \<Rightarrow> ('k, 'v) dict" where
  "dict_comp f ks = fold (\<lambda>k d. AList.update k (f k) d) ks []"

text \<open>The lines of a file opened for reading or appending; a missing file has none.\<close>

definition file_lines :: "line list option \<Rightarrow> line list" where
  "file_lines f = (case f of None \<Rightarrow> [] | Some ls \<Rightarrow> ls)"

text \<open>The records among the lines of the ledger, in file order.\<close>

fun records_of :: "line list \<Rightarrow> lrec list" where
  "records_of [] = []"
| "records_of (Rec r # ls) = r # records_of ls"
| "records_of (_ # ls) = records_of ls"

section \<open>Catalog and leases\<close>

text \<open>
  \<open>_scan_videos\<close>: the walk collects the relative paths and \<open>items.sort()\<close> orders them.
  The argument is the list of collected paths.
\<close>

definition scan_videos :: "string list \<Rightarrow> string list" where
  "scan_videos walk = sort walk"

text \<open>\<open>_prune_assignments\<close>: collect the expired keys, then delete each.\<close>

definition prune_assignments :: "config \<Rightarrow> real \<Rightarrow> state \<Rightarrow> state" where
  "prune_assignments cfg now s =
     (let expired = map fst (filter (\<lambda>(vid, info). now - snd info > real_of_int (ASSIGNMENT_TTL_SEC cfg))
                                    (assigned s))
      in s\<lparr>assigned := fold AList.delete expired (assigned s)\<rparr>)"

text \<open>\<open>_eligible_videos\<close>: rescan, prune, keep what is neither leased nor (in single-label mode) labeled.\<close>

definition eligible_videos :: "config \<Rightarrow> string list \<Rightarrow> real \<Rightarrow> state \<Rightarrow> string list \<times> state" where
  "eligible_videos cfg walk now s =
     (let s1 = s\<lparr>videos := scan_videos walk\<rparr>;
          s2 = prune_assignments cfg now s1;
          eligible = filter (\<lambda>vid. \<not> (vid \<in> fst ` set (assigned s2))
                                 \<and> \<not> (SINGLE_LABEL_PER_VIDEO cfg \<and> vid \<in> labeled_ids s2))
                            (videos s2)
      in (eligible, s2))"

section \<open>The fair-share balancer\<close>

definition participants_of :: "state \<Rightarrow> string list" where
  "participants_of s = sorted_list_of_set (active_users s \<union> set (map fst (per_user_counts s)))"

text \<open>The loop over \<open>enumerate(participants)\<close> that fills \<open>targets\<close>.\<close>

definition targets_of :: "string list \<Rightarrow> int \<Rightarrow> (string, int) dict" where
  "targets_of participants total_n =
     (let n = int (length participants); base = total_n div n; rem = total_n mod n
      in fold (\<lambda>(i, u) d. AList.update u (base + (if int i < rem then 1 else 0)) d)
              (enumerate 0 participants) [])"

text \<open>
  \<open>labeled_counts\<close> and \<open>need\<close>. The subscript \<open>targets[u]\<close> cannot raise: \<open>u\<close> ranges over the
  list that \<open>targets\<close> was filled from (lemma \<open>targets_of_defined\<close>).
\<close>

definition need_of :: "string list \<Rightarrow> (string, int) dict \<Rightarrow> (string, int) dict \<Rightarrow> (string, int) dict" where
  "need_of participants targets counts =
     (let labeled_counts = dict_comp (\<lambda>u. dict_get counts u 0) participants
      in dict_comp (\<lambda>u. max 0 (the (map_of targets u) - dict_get labeled_counts u 0)) participants)"

text \<open>The queue: each participant repeated \<open>need\<close> times (\<open>[u] * count\<close> is empty for \<open>count \<le> 0\<close>).\<close>

definition queue_of :: "string list \<Rightarrow> (string, int) dict \<Rightarrow> string list" where
  "queue_of participants need = concat (map (\<lambda>u. replicate (nat (dict_get need u 0)) u) participants)"

text \<open>
  The round-robin loop. It runs only on a nonempty queue and keeps \<open>qi < qlen\<close>, so
  \<open>queue[qi]\<close> is in range.
\<close>

fun assign_owners :: "string list \<Rightarrow> nat \<Rightarrow> string list \<Rightarrow> (string, string) dict \<Rightarrow> (string, string) dict" where
  "assign_owners queue qi [] om = om"
| "assign_owners queue qi (vid # vids) om =
     assign_owners queue ((qi + 1) mod length queue) vids (AList.update vid (queue ! qi) om)"

text \<open>The part of \<open>_rebalance_if_needed\<close> below the comment \<open># Recompute\<close>.\<close>

definition recompute :: "state \<Rightarrow> state" where
  "recompute s =
     (let participants = participants_of s;
          sig = (participants, length (videos s), card (labeled_ids s));
          s1 = s\<lparr>balance_sig := Some sig, owner_map := []\<rparr>
      in if participants = [] then s1
         else
           let total_n = int (length (videos s));
               targets = targets_of participants total_n;
               need = need_of participants targets (per_user_counts s);
               unlabeled = filter (\<lambda>v. v \<notin> labeled_ids s) (videos s)
           in if unlabeled = [] then s1
              else
                let queue = queue_of participants need
                in if queue = [] then s1
                   else s1\<lparr>owner_map := assign_owners queue 0 unlabeled []\<rparr>)"

text \<open>The test that lets \<open>_rebalance_if_needed\<close> return without recomputing.\<close>

definition balance_fresh :: "state \<Rightarrow> bool" where
  "balance_fresh s =
     (balance_sig s = Some (participants_of s, length (videos s), card (labeled_ids s))
      \<and> filter (\<lambda>v. v \<notin> labeled_ids s \<and> v \<notin> fst ` set (owner_map s)) (videos s) = [])"

definition rebalance_if_needed :: "state \<Rightarrow> state" where
  "rebalance_if_needed s = (if balance_fresh s then s else recompute s)"

section \<open>Handing out work\<close>

text \<open>\<open>peek_next\<close>: the first eligible item, whoever owns it.\<close>

definition peek_next :: "config \<Rightarrow> env \<Rightarrow> state \<Rightarrow> string option \<times> state" where
  "peek_next cfg e s =
     (let (eligible, s1) = eligible_videos cfg (walk1 e) (clock1 e) s
      in (case eligible of [] \<Rightarrow> None | v # _ \<Rightarrow> Some v, s1))"

text \<open>\<open>peek_next_for_user\<close>: the first eligible item owned by the caller, without a lease.\<close>

definition peek_next_for_user :: "config \<Rightarrow> env \<Rightarrow> string \<Rightarrow> state \<Rightarrow> string option \<times> state" where
  "peek_next_for_user cfg e user s =
     (let s1 = s\<lparr>videos := scan_videos (walk1 e)\<rparr>;
          s2 = s1\<lparr>active_users := insert user (active_users s1)\<rparr>;
          s3 = rebalance_if_needed s2;
          (eligible, s4) = eligible_videos cfg (walk2 e) (clock1 e) s3
      in (find (\<lambda>vid. map_of (owner_map s4) vid = Some user) eligible, s4))"

text \<open>
  \<open>assign_next\<close>: the same choice, then the lease. \<open>if not vid\<close> also turns an empty
  identifier into "nothing to do".
\<close>

definition assign_next :: "config \<Rightarrow> env \<Rightarrow> string \<Rightarrow> state \<Rightarrow> string option \<times> state" where
  "assign_next cfg e user s =
     (let s1 = s\<lparr>videos := scan_videos (walk1 e)\<rparr>;
          s2 = s1\<lparr>active_users := insert user (active_users s1)\<rparr>;
          s3 = rebalance_if_needed s2;
          (eligible, s4) = eligible_videos cfg (walk2 e) (clock1 e) s3;
          vid = find (\<lambda>v. map_of (owner_map s4) v = Some user) eligible
      in if \<not> truthy vid then (None, s4)
         else (case vid of
                 None \<Rightarrow> (None, s4)
               | Some v \<Rightarrow> (Some v, s4\<lparr>assigned := AList.update v (user, clock2 e) (assigned s4)\<rparr>)))"

text \<open>\<open>release\<close>: drop the lease when no user is given or the given user holds it.\<close>

definition release :: "string \<Rightarrow> string option \<Rightarrow> state \<Rightarrow> state" where
  "release vid user s =
     (case map_of (assigned s) vid of
        None \<Rightarrow> s
      | Some info \<Rightarrow>
          if user = None \<or> Some (fst info) = user
          then s\<lparr>assigned := AList.delete vid (assigned s)\<rparr> else s)"

section \<open>The ledger\<close>

text \<open>
  \<open>record_label\<close>. The stamp is \<open>int(time.time() * 1000)\<close>. The lease table is read as it
  stands: nothing prunes it here. An append that raises is taken to raise before any
  byte reaches the file.
\<close>

definition record_label :: "env \<Rightarrow> lrec \<Rightarrow> state \<Rightarrow> (bool \<times> string) \<times> state" where
  "record_label e payload s =
     (case (rec_id payload, rec_user payload) of
        (Some vid, Some user) \<Rightarrow>
          if vid = [] \<or> user = [] \<or> rec_label payload \<notin> {Some ''ok'', Some ''not_ok''}
          then ((False, ''Invalid payload''), s)
          else
            let now_ms = \<lfloor>clock1 e * 1000\<rfloor>;
                ln = Rec (payload\<lparr>rec_ts := Some now_ms\<rparr>);
                info = map_of (assigned s) vid
            in if info \<noteq> None \<and> map_option fst info \<noteq> Some user
               then ((False, ''Assigned to another user''), s)
               else if append_fail e = Some 0
               then ((False, ''Failed to write label''), s)
               else
                 ((True, ''ok''),
                  s\<lparr>labels_file := Some (file_lines (labels_file s) @ [ln]),
                    per_user_counts :=
                      AList.update user (dict_get (per_user_counts s) user 0 + 1) (per_user_counts s),
                    labeled_ids := insert vid (labeled_ids s),
                    assigned := AList.delete vid (assigned s)\<rparr>)
      | _ \<Rightarrow> ((False, ''Invalid payload''), s))"

text \<open>
  The rewrite shared by \<open>remove_label\<close> and \<open>undo_last\<close> (the same lines in both): write
  the rows to the temporary file, replace the ledger by it; on any exception remove the
  temporary file if it exists, swallowing a failure of that removal.
\<close>

definition rewrite_ledger :: "env \<Rightarrow> lrec list \<Rightarrow> state \<Rightarrow> bool \<times> state" where
  "rewrite_ledger e rows s =
     (case tmp_write e of
        TmpOk \<Rightarrow> (True, s\<lparr>labels_file := Some (map Rec rows), tmp_file := None\<rparr>)
      | outcome \<Rightarrow>
          let s1 = s\<lparr>tmp_file :=
                       (case outcome of
                          TmpOpenFail \<Rightarrow> tmp_file s
                        | TmpWriteFail k \<Rightarrow> Some (map Rec (take k rows))
                        | _ \<Rightarrow> Some (map Rec rows))\<rparr>
          in (False, if tmp_file s1 \<noteq> None \<and> cleanup_ok e then s1\<lparr>tmp_file := None\<rparr> else s1))"

text \<open>
  The reading loop of \<open>remove_label\<close>: \<open>None\<close> is the exception that leaves it
  (\<open>rec.get\<close> on a value that is no object).
\<close>

fun remove_scan :: "string \<Rightarrow> string \<Rightarrow> line list \<Rightarrow> lrec list \<Rightarrow> nat \<Rightarrow> (lrec list \<times> nat) option" where
  "remove_scan user vid [] rows removed = Some (rows, removed)"
| "remove_scan user vid (Blank # ls) rows removed = remove_scan user vid ls rows removed"
| "remove_scan user vid (Corrupt # ls) rows removed = remove_scan user vid ls rows removed"
| "remove_scan user vid (NonDict # ls) rows removed = None"
| "remove_scan user vid (Rec r # ls) rows removed =
     (if rec_user r = Some user \<and> rec_id r = Some vid \<and> removed = 0
      then remove_scan user vid ls rows 1
      else remove_scan user vid ls (rows @ [r]) removed)"

definition remove_label :: "env \<Rightarrow> string \<Rightarrow> string \<Rightarrow> state \<Rightarrow> (bool \<times> string) \<times> state" where
  "remove_label e user vid s =
     (if user = [] \<or> vid = [] then ((False, ''invalid params''), s)
      else
        case (case labels_file s of
                None \<Rightarrow> Some ([], 0)
              | Some ls \<Rightarrow> if read_ok e then remove_scan user vid ls [] 0 else None) of
          None \<Rightarrow> ((False, ''failed to read''), s)
        | Some (rows, removed) \<Rightarrow>
            if removed = 0 then ((True, ''not found''), s)
            else
              let (written, s1) = rewrite_ledger e rows s
              in if \<not> written then ((False, ''failed to write''), s1)
                 else
                   ((True, ''ok''),
                    s1\<lparr>per_user_counts :=
                         AList.update user (max 0 (dict_get (per_user_counts s1) user 0 - 1))
                           (per_user_counts s1),
                       labeled_ids := labeled_ids s1 - {vid},
                       balance_sig := None\<rparr>))"

text \<open>The reading loop of \<open>undo_last\<close>: the rows, and the positions of the user's rows.\<close>

fun undo_scan :: "string \<Rightarrow> line list \<Rightarrow> lrec list \<Rightarrow> nat list \<Rightarrow> (lrec list \<times> nat list) option" where
  "undo_scan user [] rows idx_user = Some (rows, idx_user)"
| "undo_scan user (Blank # ls) rows idx_user = undo_scan user ls rows idx_user"
| "undo_scan user (Corrupt # ls) rows idx_user = undo_scan user ls rows idx_user"
| "undo_scan user (NonDict # ls) rows idx_user = None"
| "undo_scan user (Rec r # ls) rows idx_user =
     (let rows' = rows @ [r]
      in if rec_user r = Some user
         then undo_scan user ls rows' (idx_user @ [length rows' - 1])
         else undo_scan user ls rows' idx_user)"

text \<open>The loop over \<open>enumerate(rows)\<close> that splits off the batch.\<close>

fun undo_split :: "nat set \<Rightarrow> (nat \<times> lrec) list \<Rightarrow> string list \<Rightarrow> lrec list \<Rightarrow> lrec list
                   \<Rightarrow> string list \<times> lrec list \<times> lrec list" where
  "undo_split to_remove [] undone_ids undone_records new_rows = (undone_ids, undone_records, new_rows)"
| "undo_split to_remove ((i, r) # irs) undone_ids undone_records new_rows =
     (if i \<in> to_remove
      then undo_split to_remove irs
             (case rec_id r of
                None \<Rightarrow> undone_ids
              | Some vid \<Rightarrow> if vid = [] then undone_ids else undone_ids @ [vid])
             (undone_records @ [r]) new_rows
      else undo_split to_remove irs undone_ids undone_records (new_rows @ [r]))"

definition undo_last :: "env \<Rightarrow> string \<Rightarrow> int \<Rightarrow> state \<Rightarrow> (bool \<times> string \<times> string list) \<times> state" where
  "undo_last e user count s =
     (if user = [] \<or> count \<le> 0 then ((False, ''invalid params'', []), s)
      else
        case (case labels_file s of
                None \<Rightarrow> Some ([], [])
              | Some ls \<Rightarrow> if read_ok e then undo_scan user ls [] [] else None) of
          None \<Rightarrow> ((False, ''failed to read'', []), s)
        | Some (rows, idx_user) \<Rightarrow>
            if idx_user = [] then ((True, ''nothing to undo'', []), s)
            else
              let k = min count (int (length idx_user));
                  pos_batch = drop (length idx_user - nat k) idx_user;
                  (undone_ids, undone_records, new_rows) =
                     undo_split (set pos_batch) (enumerate 0 rows) [] [] [];
                  (written, s1) = rewrite_ledger e new_rows s
              in if \<not> written then ((False, ''failed to write'', []), s1)
                 else
                   let removed = int (length undone_ids)
                   in if removed > 0
                      then ((True, ''ok'', undone_ids),
                            s1\<lparr>per_user_counts :=
                                 AList.update user
                                   (max 0 (dict_get (per_user_counts s1) user 0 - removed))
                                   (per_user_counts s1),
                               labeled_ids := labeled_ids s1 - set undone_ids,
                               balance_sig := None,
                               last_undo := AList.update user undone_records (last_undo s1)\<rparr>)
                      else ((True, ''ok'', undone_ids), s1))"

text \<open>
  The loop of \<open>redo_last\<close>. \<open>fail\<close> is the number of the write that raises; the writes made
  before it stay in the file and in the counters. (\<open>redo_last\<close> handles number 0, which
  covers the failure to open the file, before the loop.)
\<close>

fun redo_loop :: "config \<Rightarrow> nat option \<Rightarrow> string \<Rightarrow> lrec list \<Rightarrow> nat \<Rightarrow> state \<Rightarrow> bool \<times> nat \<times> state" where
  "redo_loop cfg fail user [] appended s = (True, appended, s)"
| "redo_loop cfg fail user (r # rs) appended s =
     (if SINGLE_LABEL_PER_VIDEO cfg \<and> (case rec_id r of None \<Rightarrow> False | Some vid \<Rightarrow> vid \<in> labeled_ids s)
      then redo_loop cfg fail user rs appended s
      else if fail = Some appended then (False, appended, s)
      else redo_loop cfg fail user rs (appended + 1)
             (s\<lparr>labels_file := Some (file_lines (labels_file s) @ [Rec r]),
               per_user_counts :=
                 AList.update user (dict_get (per_user_counts s) user 0 + 1) (per_user_counts s),
               labeled_ids :=
                 (case rec_id r of
                    None \<Rightarrow> labeled_ids s
                  | Some vid \<Rightarrow> if vid = [] then labeled_ids s else insert vid (labeled_ids s))\<rparr>))"

definition redo_last :: "config \<Rightarrow> env \<Rightarrow> string \<Rightarrow> state \<Rightarrow> (bool \<times> string \<times> nat) \<times> state" where
  "redo_last cfg e user s =
     (if user = [] then ((False, ''invalid params'', 0), s)
      else
        case map_of (last_undo s) user of
          None \<Rightarrow> ((True, ''nothing to redo'', 0), s)
        | Some batch \<Rightarrow>
            if batch = [] then ((True, ''nothing to redo'', 0), s)
            else if append_fail e = Some 0 then ((False, ''failed to write'', 0), s)
            else
              let (written, appended, s1) = redo_loop cfg (append_fail e) user batch 0 s
              in if \<not> written then ((False, ''failed to write'', 0), s1)
                 else
                   ((True, ''ok'', appended),
                    s1\<lparr>last_undo := AList.update user [] (last_undo s1), balance_sig := None\<rparr>))"

section \<open>Statistics\<close>

text \<open>The body of the \<open>/api/stats\<close> handler: total, labeled, remaining and the per-user counts.\<close>

definition labeled_global :: "config \<Rightarrow> state \<Rightarrow> int" where
  "labeled_global cfg s =
     (if SINGLE_LABEL_PER_VIDEO cfg then int (card (labeled_ids s))
      else sum_list (map snd (per_user_counts s)))"

definition api_stats :: "config \<Rightarrow> state \<Rightarrow> int \<times> int \<times> int \<times> (string, int) dict" where
  "api_stats cfg s =
     (let total_n = int (length (videos s));
          labeled = labeled_global cfg s;
          remaining = max 0 (total_n - int (card (labeled_ids s)))
      in (total_n, labeled, remaining, per_user_counts s))"

text \<open>\<open>participants.index(user)\<close>, with \<open>ValueError\<close> as \<open>None\<close>.\<close>

fun index_of :: "'a list \<Rightarrow> 'a \<Rightarrow> nat option" where
  "index_of [] x = None"
| "index_of (y # ys) x = (if y = x then Some 0 else map_option Suc (index_of ys x))"

text \<open>
  \<open>get_user_stats\<close>: total, labeled, remaining and, for a given user, the triple of the
  user's labeled count, target and remaining owned items.
\<close>

definition get_user_stats :: "config \<Rightarrow> env \<Rightarrow> string option \<Rightarrow> state
                               \<Rightarrow> (int \<times> int \<times> int \<times> (string \<times> int \<times> int \<times> nat) option) \<times> state" where
  "get_user_stats cfg e user s =
     (let s1 = s\<lparr>videos := scan_videos (walk1 e)\<rparr>;
          total_n = int (length (videos s1));
          labeled = labeled_global cfg s1;
          remaining = max 0 (total_n - int (card (labeled_ids s1)))
      in case user of
           None \<Rightarrow> ((total_n, labeled, remaining, None), s1)
         | Some u \<Rightarrow>
             if u = [] then ((total_n, labeled, remaining, None), s1)
             else
               let s2 = s1\<lparr>active_users := insert u (active_users s1)\<rparr>;
                   s3 = rebalance_if_needed s2;
                   my_labeled = dict_get (per_user_counts s3) u 0;
                   participants = participants_of s3;
                   n = max 1 (int (length participants));
                   base = total_n div n;
                   rem = total_n mod n;
                   idx = (case index_of participants u of None \<Rightarrow> 0 | Some i \<Rightarrow> i);
                   my_target = base + (if int idx < rem then 1 else 0);
                   my_remaining = length (filter (\<lambda>(v, owner). owner = u \<and> v \<notin> labeled_ids s3)
                                                 (owner_map s3))
               in ((total_n, labeled, remaining, Some (u, my_labeled, my_target, my_remaining)), s3))"

section \<open>Start-up and the reachable states\<close>

text \<open>
  \<open>_load_existing_labels\<close>: replay the ledger. A line that is no object raises inside the
  loop; the outer handler swallows it and keeps what was counted so far.
\<close>

fun load_lines :: "line list \<Rightarrow> state \<Rightarrow> state" where
  "load_lines [] s = s"
| "load_lines (Blank # ls) s = load_lines ls s"
| "load_lines (Corrupt # ls) s = load_lines ls s"
| "load_lines (NonDict # ls) s = s"
| "load_lines (Rec r # ls) s =
     load_lines ls
       (s\<lparr>labeled_ids :=
            (case rec_id r of
               None \<Rightarrow> labeled_ids s
             | Some vid \<Rightarrow> if vid = [] then labeled_ids s else insert vid (labeled_ids s)),
          per_user_counts :=
            (case rec_user r of
               None \<Rightarrow> per_user_counts s
             | Some user \<Rightarrow>
                 if user = [] then per_user_counts s
                 else AList.update user (dict_get (per_user_counts s) user 0 + 1) (per_user_counts s))\<rparr>)"

text \<open>\<open>State.__init__\<close> on a disk that holds the given ledger and temporary file.\<close>

definition init_state :: "env \<Rightarrow> line list option \<Rightarrow> line list option \<Rightarrow> state" where
  "init_state e ledger tmp =
     (let s0 = \<lparr>videos = scan_videos (walk1 e), assigned = [], labeled_ids = {},
                per_user_counts = [], active_users = {}, owner_map = [], balance_sig = None,
                last_undo = [], labels_file = ledger, tmp_file = tmp\<rparr>
      in case ledger of
           None \<Rightarrow> s0
         | Some ls \<Rightarrow> if read_ok e then load_lines ls s0 else s0)"

text \<open>The calls the request layer makes on the state, and the state each leaves.\<close>

datatype op =
    AssignNext string
  | PeekNext
  | PeekNextForUser string
  | Release string "string option"
  | RecordLabel lrec
  | RemoveLabel string string
  | UndoLast string int
  | RedoLast string
  | GetUserStats "string option"

fun exec :: "config \<Rightarrow> env \<Rightarrow> op \<Rightarrow> state \<Rightarrow> state" where
  "exec cfg e (AssignNext user) s = snd (assign_next cfg e user s)"
| "exec cfg e PeekNext s = snd (peek_next cfg e s)"
| "exec cfg e (PeekNextForUser user) s = snd (peek_next_for_user cfg e user s)"
| "exec cfg e (Release vid user) s = release vid user s"
| "exec cfg e (RecordLabel payload) s = snd (record_label e payload s)"
| "exec cfg e (RemoveLabel user vid) s = snd (remove_label e user vid s)"
| "exec cfg e (UndoLast user count) s = snd (undo_last e user count s)"
| "exec cfg e (RedoLast user) s = snd (redo_last cfg e user s)"
| "exec cfg e (GetUserStats user) s = snd (get_user_stats cfg e user s)"

inductive reachable :: "config \<Rightarrow> state \<Rightarrow> bool" for cfg :: config where
  reachable_init: "reachable cfg (init_state e ledger tmp)"
| reachable_step: "reachable cfg s \<Longrightarrow> reachable cfg (exec cfg e opn s)"

section \<open>The three-item scenario\<close>

text \<open>A submission as the client posts it: identifier, user and label, nothing else.\<close>

definition submit :: "string \<Rightarrow> string option \<Rightarrow> string \<Rightarrow> lrec" where
  "submit user vid label =
     \<lparr>rec_id = vid, rec_user = Some user, rec_label = Some label, rec_ts = None, rec_extra = []\<rparr>"

text \<open>
  Start-up on the given ledger, then: alice asks and labels what she got \<open>ok\<close>, bob asks and
  labels what he got \<open>not_ok\<close>, alice asks and labels what she got \<open>ok\<close>. The result is the
  three items handed out and the final \<open>/api/stats\<close>.
\<close>

definition scenario :: "config \<Rightarrow> line list option \<Rightarrow> env \<Rightarrow> env \<Rightarrow> env \<Rightarrow> env \<Rightarrow> env \<Rightarrow> env \<Rightarrow> env
   \<Rightarrow> string option \<times> string option \<times> string option \<times> (int \<times> int \<times> int \<times> (string, int) dict)" where
  "scenario cfg ledger e0 e1 e2 e3 e4 e5 e6 =
     (let s0 = init_state e0 ledger None;
          (a1, s1) = assign_next cfg e1 ''alice'' s0;
          s2 = snd (record_label e2 (submit ''alice'' a1 ''ok'') s1);
          (b1, s3) = assign_next cfg e3 ''bob'' s2;
          s4 = snd (record_label e4 (submit ''bob'' b1 ''not_ok'') s3);
          (a2, s5) = assign_next cfg e5 ''alice'' s4;
          s6 = snd (record_label e6 (submit ''alice'' a2 ''ok'') s5)
      in (a1, b1, a2, api_stats cfg s6))"

section \<open>Concrete inputs\<close>

text \<open>The default configuration, and a fault-free environment over three files at time \<open>t\<close>.\<close>

definition demo_cfg :: config where
  "demo_cfg = \<lparr>ASSIGNMENT_TTL_SEC = 180, SINGLE_LABEL_PER_VIDEO = True\<rparr>"

definition demo_env :: "real \<Rightarrow> env" where
  "demo_env t = \<lparr>walk1 = [''c.mp4'', ''a.mp4'', ''b.mp4''], walk2 = [''c.mp4'', ''a.mp4'', ''b.mp4''],
                  clock1 = t, clock2 = t, read_ok = True, tmp_write = TmpOk, cleanup_ok = True,
                  append_fail = None\<rparr>"

text \<open>The state when bob has just joined: alice has labeled \<open>a.mp4\<close>, the balance is stale.\<close>

definition demo_joined :: state where
  "demo_joined =
     \<lparr>videos = [''a.mp4'', ''b.mp4'', ''c.mp4''], assigned = [], labeled_ids = {''a.mp4''},
      per_user_counts = [(''alice'', 1)], active_users = {''alice'', ''bob''},
      owner_map = [(''a.mp4'', ''alice''), (''b.mp4'', ''alice''), (''c.mp4'', ''alice'')],
      balance_sig = Some ([''alice''], 3, 0), last_undo = [],
      labels_file = Some [Rec (submit ''alice'' (Some ''a.mp4'') ''ok'')], tmp_file = None\<rparr>"

text \<open>The state after start-up on three files and alice's first request at time 0.\<close>

definition demo_leased :: state where
  "demo_leased = snd (assign_next demo_cfg (demo_env 0) ''alice'' (init_state (demo_env 0) None None))"

text \<open>A ledger of three records and a blank line, with the state a start-up on it gives.\<close>

definition demo_r1 :: lrec where
  "demo_r1 = (submit ''alice'' (Some ''a.mp4'') ''ok'')\<lparr>rec_ts := Some 1000\<rparr>"

definition demo_r2 :: lrec where
  "demo_r2 = (submit ''bob'' (Some ''b.mp4'') ''not_ok'')\<lparr>rec_ts := Some 2000\<rparr>"

definition demo_r3 :: lrec where
  "demo_r3 = (submit ''alice'' (Some ''c.mp4'') ''ok'')\<lparr>rec_ts := Some 3000\<rparr>"

definition demo_labeled :: state where
  "demo_labeled =
     \<lparr>videos = [''a.mp4'', ''b.mp4'', ''c.mp4''], assigned = [],
      labeled_ids = {''a.mp4'', ''b.mp4'', ''c.mp4''},
      per_user_counts = [(''alice'', 2), (''bob'', 1)], active_users = {''alice'', ''bob''},
      owner_map = [], balance_sig = Some ([''alice'', ''bob''], 3, 3), last_undo = [],
      labels_file = Some [Rec demo_r1, Rec demo_r2, Blank, Rec demo_r3], tmp_file = None\<rparr>"

text \<open>
  The identifiers \<open>undo_last\<close> collects from a batch: those of the records whose \<open>id\<close> is
  truthy, in order.
\<close>

definition ids_of :: "lrec list \<Rightarrow> string list" where
  "ids_of rs = concat (map (\<lambda>r. case rec_id r of None \<Rightarrow> [] | Some vid \<Rightarrow> if vid = [] then [] else [vid]) rs)"

text \<open>An environment in which the second write to the temporary file raises.\<close>

definition demo_fault :: env where
  "demo_fault = (demo_env 9)\<lparr>tmp_write := TmpWriteFail 1\<rparr>"

text \<open>Start-up on an empty ledger, then alice submits \<open>a.mp4\<close> twice (no lease is needed).\<close>

definition demo_q1 :: lrec where
  "demo_q1 = (submit ''alice'' (Some ''a.mp4'') ''ok'')\<lparr>rec_ts := Some 1000\<rparr>"

definition demo_q2 :: lrec where
  "demo_q2 = (submit ''alice'' (Some ''a.mp4'') ''not_ok'')\<lparr>rec_ts := Some 2000\<rparr>"

definition demo_twice :: state where
  "demo_twice =
     snd (record_label (demo_env 2) (submit ''alice'' (Some ''a.mp4'') ''not_ok'')
            (snd (record_label (demo_env 1) (submit ''alice'' (Some ''a.mp4'') ''ok'')
                    (init_state (demo_env 0) None None))))"

text \<open>
  The invariant behind the ownership map: the labeled set is finite, and a signature in
  force records the size of a part of the labeled set that the ownership map avoids
  (the labeled set as it was when the map was computed).
\<close>

definition balance_inv :: "state \<Rightarrow> bool" where
  "balance_inv s =
     (finite (labeled_ids s)
      \<and> (case balance_sig s of
           None \<Rightarrow> True
         | Some (P, nv, nl) \<Rightarrow>
             (\<exists>L. L \<subseteq> labeled_ids s \<and> card L = nl \<and> fst ` set (owner_map s) \<inter> L = {})))"

text \<open>The state after alice's first request and her label for \<open>a.mp4\<close>.\<close>

definition demo_stale :: state where
  "demo_stale = snd (record_label (demo_env 2) (submit ''alice'' (Some ''a.mp4'') ''ok'') demo_leased)"

section \<open>The scenario, step by step\<close>

lemma sorted_alice: "sorted_list_of_set {''alice''} = [''alice'']"
  by simp

lemma sorted_alice_bob: "sorted_list_of_set {''alice'', ''bob''} = [''alice'', ''bob'']"
  by code_simp

lemma participants_alice:
  "active_users s = {''alice''} \<Longrightarrow> per_user_counts s = [] \<Longrightarrow> participants_of s = [''alice'']"
  by (simp add: participants_of_def)

lemma participants_alice_bob:
  assumes "active_users s = {''alice'', ''bob''}" "set (map fst (per_user_counts s)) \<subseteq> {''alice'', ''bob''}"
  shows "participants_of s = [''alice'', ''bob'']"
proof -
  have "active_users s \<union> set (map fst (per_user_counts s)) = {''alice'', ''bob''}"
    using assms by auto
  then show ?thesis
    by (simp only: participants_of_def sorted_alice_bob)
qed

lemma targets_alice: "targets_of [''alice''] 3 = [(''alice'', 3)]"
  by (simp add: targets_of_def enumerate_eq_zip)

lemma targets_alice_bob: "targets_of [''alice'', ''bob''] 3 = [(''alice'', 2), (''bob'', 1)]"
  by (simp add: targets_of_def enumerate_eq_zip)

lemma need_alice: "need_of [''alice''] [(''alice'', 3)] [] = [(''alice'', 3)]"
  by (simp add: need_of_def dict_comp_def dict_get_def)

lemma need_alice_bob_1:
  "need_of [''alice'', ''bob''] [(''alice'', 2), (''bob'', 1)] [(''alice'', 1)] = [(''alice'', 1), (''bob'', 1)]"
  by (simp add: need_of_def dict_comp_def dict_get_def)

lemma need_alice_bob_2:
  "need_of [''alice'', ''bob''] [(''alice'', 2), (''bob'', 1)] [(''alice'', 1), (''bob'', 1)]
     = [(''alice'', 1), (''bob'', 0)]"
  by (simp add: need_of_def dict_comp_def dict_get_def)

lemma queue_alice: "queue_of [''alice''] [(''alice'', 3)] = [''alice'', ''alice'', ''alice'']"
  by (simp add: queue_of_def dict_get_def numeral_3_eq_3)

lemma queue_alice_bob_1: "queue_of [''alice'', ''bob''] [(''alice'', 1), (''bob'', 1)] = [''alice'', ''bob'']"
  by (simp add: queue_of_def dict_get_def)

lemma queue_alice_bob_2: "queue_of [''alice'', ''bob''] [(''alice'', 1), (''bob'', 0)] = [''alice'']"
  by (simp add: queue_of_def dict_get_def)

lemma scenario_general:
  assumes lt: "i0 < i1" "i1 < i2" and i0: "i0 \<noteq> []"
    and single: "SINGLE_LABEL_PER_VIDEO cfg"
    and empty: "file_lines ledger = []"
    and w1: "scan_videos (walk1 e1) = [i0, i1, i2]" "scan_videos (walk2 e1) = [i0, i1, i2]"
    and w3: "scan_videos (walk1 e3) = [i0, i1, i2]" "scan_videos (walk2 e3) = [i0, i1, i2]"
    and w5: "scan_videos (walk1 e5) = [i0, i1, i2]" "scan_videos (walk2 e5) = [i0, i1, i2]"
    and wr: "append_fail e2 = None" "append_fail e4 = None" "append_fail e6 = None"
  shows "scenario cfg ledger e0 e1 e2 e3 e4 e5 e6 =
           (Some i0, Some i2, Some i1, 3, 3, 0, [(''alice'', 2), (''bob'', 1)])"
proof -
  have ne: "i0 \<noteq> i1" "i1 \<noteq> i2" "i0 \<noteq> i2" "i1 \<noteq> []" "i2 \<noteq> []"
    using lt by auto
  define r0 where "r0 = Rec ((submit ''alice'' (Some i0) ''ok'')\<lparr>rec_ts := Some \<lfloor>clock1 e2 * 1000\<rfloor>\<rparr>)"
  define r1 where "r1 = Rec ((submit ''bob'' (Some i2) ''not_ok'')\<lparr>rec_ts := Some \<lfloor>clock1 e4 * 1000\<rfloor>\<rparr>)"
  define r2 where "r2 = Rec ((submit ''alice'' (Some i1) ''ok'')\<lparr>rec_ts := Some \<lfloor>clock1 e6 * 1000\<rfloor>\<rparr>)"
  define s0 where "s0 = \<lparr>videos = scan_videos (walk1 e0), assigned = [], labeled_ids = {},
      per_user_counts = [], active_users = {}, owner_map = [], balance_sig = None,
      last_undo = [], labels_file = ledger, tmp_file = None\<rparr>"
  define s1 where "s1 = \<lparr>videos = [i0, i1, i2], assigned = [(i0, (''alice'', clock2 e1))], labeled_ids = {},
      per_user_counts = [], active_users = {''alice''},
      owner_map = [(i0, ''alice''), (i1, ''alice''), (i2, ''alice'')],
      balance_sig = Some ([''alice''], 3, 0),
      last_undo = [], labels_file = ledger, tmp_file = None\<rparr>"
  define s2 where "s2 = \<lparr>videos = [i0, i1, i2], assigned = [], labeled_ids = {i0},
      per_user_counts = [(''alice'', 1)], active_users = {''alice''},
      owner_map = [(i0, ''alice''), (i1, ''alice''), (i2, ''alice'')],
      balance_sig = Some ([''alice''], 3, 0),
      last_undo = [], labels_file = Some [r0], tmp_file = None\<rparr>"
  define s3 where "s3 = \<lparr>videos = [i0, i1, i2], assigned = [(i2, (''bob'', clock2 e3))], labeled_ids = {i0},
      per_user_counts = [(''alice'', 1)], active_users = {''alice'', ''bob''},
      owner_map = [(i1, ''alice''), (i2, ''bob'')],
      balance_sig = Some ([''alice'', ''bob''], 3, 1),
      last_undo = [], labels_file = Some [r0], tmp_file = None\<rparr>"
  define s4 where "s4 = \<lparr>videos = [i0, i1, i2], assigned = [], labeled_ids = {i0, i2},
      per_user_counts = [(''alice'', 1), (''bob'', 1)], active_users = {''alice'', ''bob''},
      owner_map = [(i1, ''alice''), (i2, ''bob'')],
      balance_sig = Some ([''alice'', ''bob''], 3, 1),
      last_undo = [], labels_file = Some [r0, r1], tmp_file = None\<rparr>"
  define s5 where "s5 = \<lparr>videos = [i0, i1, i2], assigned = [(i1, (''alice'', clock2 e5))], labeled_ids = {i0, i2},
      per_user_counts = [(''alice'', 1), (''bob'', 1)], active_users = {''alice'', ''bob''},
      owner_map = [(i1, ''alice'')],
      balance_sig = Some ([''alice'', ''bob''], 3, 2),
      last_undo = [], labels_file = Some [r0, r1], tmp_file = None\<rparr>"
  define s6 where "s6 = \<lparr>videos = [i0, i1, i2], assigned = [], labeled_ids = {i0, i1, i2},
      per_user_counts = [(''alice'', 2), (''bob'', 1)], active_users = {''alice'', ''bob''},
      owner_map = [(i1, ''alice'')],
      balance_sig = Some ([''alice'', ''bob''], 3, 2),
      last_undo = [], labels_file = Some [r0, r1, r2], tmp_file = None\<rparr>"
  have init: "init_state e0 ledger None = s0"
    using empty by (cases ledger) (auto simp: init_state_def file_lines_def Let_def s0_def)
  \<comment> \<open>alice asks: one participant, target 3, she owns everything\<close>
  define t1 where "t1 = s0\<lparr>videos := [i0, i1, i2], active_users := {''alice''}\<rparr>"
  have p1: "participants_of t1 = [''alice'']"
    by (rule participants_alice) (simp_all add: t1_def s0_def)
  have rb1: "rebalance_if_needed t1 = s1\<lparr>assigned := []\<rparr>"
    using ne
    by (simp add: rebalance_if_needed_def balance_fresh_def recompute_def p1 Let_def)
      (simp add: t1_def s0_def s1_def targets_alice need_alice queue_alice)
  have a1: "assign_next cfg e1 ''alice'' s0 = (Some i0, s1)"
    using single i0 w1 rb1
    by (simp add: assign_next_def t1_def s0_def eligible_videos_def prune_assignments_def truthy_def
        Let_def s1_def)
  have l1: "record_label e2 (submit ''alice'' (Some i0) ''ok'') s1 = ((True, ''ok''), s2)"
    using i0 wr(1) empty
    by (simp add: record_label_def submit_def s1_def s2_def r0_def Let_def AList.delete_eq dict_get_def)
  \<comment> \<open>bob asks: targets 2 and 1, needs 1 and 1, the queue alternates over the two unlabeled items\<close>
  define t3 where "t3 = s2\<lparr>videos := [i0, i1, i2], active_users := {''alice'', ''bob''}\<rparr>"
  have p3: "participants_of t3 = [''alice'', ''bob'']"
    by (rule participants_alice_bob) (simp_all add: t3_def s2_def)
  have rb3: "rebalance_if_needed t3 = s3\<lparr>assigned := []\<rparr>"
    using ne
    by (simp add: rebalance_if_needed_def balance_fresh_def recompute_def p3 Let_def)
      (simp add: t3_def s2_def s3_def targets_alice_bob need_alice_bob_1 queue_alice_bob_1)
  have ins3: "insert ''bob'' {''alice''} = {''alice'', ''bob''}"
    by auto
  have a3: "assign_next cfg e3 ''bob'' s2 = (Some i2, s3)"
    using single ne w3 rb3
    by (simp add: assign_next_def t3_def s2_def eligible_videos_def prune_assignments_def truthy_def
        Let_def s3_def ins3)
  have l3: "record_label e4 (submit ''bob'' (Some i2) ''not_ok'') s3 = ((True, ''ok''), s4)"
    using ne wr(2)
    by (simp add: record_label_def submit_def s3_def s4_def r1_def Let_def AList.delete_eq
        dict_get_def file_lines_def insert_commute)
  \<comment> \<open>alice asks again: bob has met his target, the last item is hers\<close>
  define t5 where "t5 = s4\<lparr>videos := [i0, i1, i2], active_users := {''alice'', ''bob''}\<rparr>"
  have p5: "participants_of t5 = [''alice'', ''bob'']"
    by (rule participants_alice_bob) (simp_all add: t5_def s4_def)
  have rb5: "rebalance_if_needed t5 = s5\<lparr>assigned := []\<rparr>"
    using ne
    by (simp add: rebalance_if_needed_def balance_fresh_def recompute_def p5 Let_def)
      (simp add: t5_def s4_def s5_def targets_alice_bob need_alice_bob_2 queue_alice_bob_2)
  have a5: "assign_next cfg e5 ''alice'' s4 = (Some i1, s5)"
    using single ne w5 rb5
    by (simp add: assign_next_def t5_def s4_def eligible_videos_def prune_assignments_def truthy_def
        Let_def s5_def)
  have l5: "record_label e6 (submit ''alice'' (Some i1) ''ok'') s5 = ((True, ''ok''), s6)"
    using ne wr(3)
    by (simp add: record_label_def submit_def s5_def s6_def r2_def Let_def AList.delete_eq
        dict_get_def file_lines_def insert_commute)
  have st: "api_stats cfg s6 = (3, 3, 0, [(''alice'', 2), (''bob'', 1)])"
    using single ne by (simp add: api_stats_def labeled_global_def s6_def Let_def)
  show ?thesis
    by (simp add: scenario_def init a1 l1 a3 l3 a5 l5 st)
qed


lemma demo_catalog: "scan_videos [''c.mp4'', ''a.mp4'', ''b.mp4''] = [''a.mp4'', ''b.mp4'', ''c.mp4'']"
  unfolding scan_videos_def by code_simp

lemma demo_order: "''a.mp4'' < ''b.mp4''" "''b.mp4'' < ''c.mp4''"
  by code_simp+

text \<open>
  Claim C1, as the code runs it. With three items \<open>i0 < i1 < i2\<close> in the catalog, an empty
  ledger and single-label mode, alice is given \<open>i0\<close>; when bob joins, the two unlabeled
  items are dealt to the queue \<open>[alice, bob]\<close>, so bob is given \<open>i2\<close> (not \<open>i1\<close>); alice is then
  given \<open>i1\<close>. The final statistics are total 3, labeled 3, remaining 0, alice 2 and bob 1.
\<close>

theorem C1_scenario:
  assumes "i0 < i1" and "i1 < i2" and "i0 \<noteq> []"
    and "SINGLE_LABEL_PER_VIDEO cfg"
    and "file_lines ledger = []"
    and "\<forall>e \<in> {e1, e3, e5}. scan_videos (walk1 e) = [i0, i1, i2] \<and> scan_videos (walk2 e) = [i0, i1, i2]"
    and "\<forall>e \<in> {e2, e4, e6}. append_fail e = None"
  shows "scenario cfg ledger e0 e1 e2 e3 e4 e5 e6 =
           (Some i0, Some i2, Some i1, 3, 3, 0, [(''alice'', 2), (''bob'', 1)])"
  using assms by (intro scenario_general) simp_all

theorem C1_scenario_witness:
  "''a.mp4'' < ''b.mp4'' \<and> ''b.mp4'' < ''c.mp4'' \<and> ''a.mp4'' \<noteq> [] \<and> SINGLE_LABEL_PER_VIDEO demo_cfg
   \<and> file_lines None = []
   \<and> scan_videos (walk1 (demo_env 1)) = [''a.mp4'', ''b.mp4'', ''c.mp4'']
   \<and> scan_videos (walk2 (demo_env 1)) = [''a.mp4'', ''b.mp4'', ''c.mp4'']
   \<and> append_fail (demo_env 2) = None
   \<and> scenario demo_cfg None (demo_env 0) (demo_env 1) (demo_env 2) (demo_env 3) (demo_env 4)
        (demo_env 5) (demo_env 6)
      = (Some ''a.mp4'', Some ''c.mp4'', Some ''b.mp4'', 3, 3, 0, [(''alice'', 2), (''bob'', 1)])"
proof -
  have h: "\<forall>e \<in> {demo_env 1, demo_env 3, demo_env 5}.
         scan_videos (walk1 e) = [''a.mp4'', ''b.mp4'', ''c.mp4'']
         \<and> scan_videos (walk2 e) = [''a.mp4'', ''b.mp4'', ''c.mp4'']"
    by (simp add: demo_env_def demo_catalog)
  have w: "\<forall>e \<in> {demo_env 2, demo_env 4, demo_env 6}. append_fail e = None"
    by (simp add: demo_env_def)
  have c: "SINGLE_LABEL_PER_VIDEO demo_cfg" "file_lines None = []" "''a.mp4'' \<noteq> []"
    by (simp_all add: demo_cfg_def file_lines_def)
  from C1_scenario [OF demo_order c(3) c(1) c(2) h w] demo_order c h w
  show ?thesis by simp
qed

text \<open>
  The scenario as the specification tells it has bob receive the second item. On the
  catalog \<open>a.mp4, b.mp4, c.mp4\<close> bob does not receive \<open>b.mp4\<close>.
\<close>

theorem C1_scenario_counterexample:
  "fst (snd (scenario demo_cfg None (demo_env 0) (demo_env 1) (demo_env 2) (demo_env 3) (demo_env 4)
        (demo_env 5) (demo_env 6))) \<noteq> Some ''b.mp4''"
proof -
  have "scenario demo_cfg None (demo_env 0) (demo_env 1) (demo_env 2) (demo_env 3) (demo_env 4)
        (demo_env 5) (demo_env 6)
      = (Some ''a.mp4'', Some ''c.mp4'', Some ''b.mp4'', 3, 3, 0, [(''alice'', 2), (''bob'', 1)])"
    by (rule scenario_general)
       (simp_all add: demo_order demo_cfg_def file_lines_def demo_env_def demo_catalog)
  then show ?thesis by simp
qed

section \<open>The balancer\<close>

lemma map_of_fold_update:
  "map_of (fold (\<lambda>k d. AList.update k (f k) d) ks d0) k
     = (if k \<in> set ks then Some (f k) else map_of d0 k)"
  by (induction ks arbitrary: d0) (auto simp: update_conv')

lemma map_of_dict_comp: "map_of (dict_comp f ks) k = (if k \<in> set ks then Some (f k) else None)"
  by (simp add: dict_comp_def map_of_fold_update)

lemma dict_get_dict_comp: "dict_get (dict_comp f ks) k dflt = (if k \<in> set ks then f k else dflt)"
  by (simp add: dict_get_def map_of_dict_comp)

lemma fold_enumerate_other:
  "u \<notin> set P \<Longrightarrow>
     map_of (fold (\<lambda>(i, u) d. AList.update u (f i) d) (enumerate n P) d0) u = map_of d0 u"
  by (induction P arbitrary: n d0) (auto simp: update_conv')

lemma fold_enumerate_nth:
  "distinct P \<Longrightarrow> i < length P \<Longrightarrow>
     map_of (fold (\<lambda>(i, u) d. AList.update u (f i) d) (enumerate n P) d0) (P ! i) = Some (f (n + i))"
proof (induction P arbitrary: n d0 i)
  case Nil
  then show ?case by simp
next
  case (Cons x xs)
  show ?case
  proof (cases i)
    case 0
    with Cons.prems show ?thesis
      by (simp add: fold_enumerate_other update_conv')
  next
    case (Suc j)
    with Cons.prems Cons.IH [of j "Suc n"] show ?thesis
      by simp
  qed
qed

lemma targets_of_nth:
  assumes "distinct P" "i < length P"
  shows "map_of (targets_of P total_n) (P ! i)
           = Some (total_n div int (length P) + (if int i < total_n mod int (length P) then 1 else 0))"
  using fold_enumerate_nth [OF assms, of "\<lambda>i. total_n div int (length P) + (if int i < total_n mod int (length P) then 1 else 0)" 0 "[]"]
  by (simp add: targets_of_def Let_def)

lemma fold_enumerate_defined:
  "u \<in> set P \<or> map_of d0 u \<noteq> None \<Longrightarrow>
     map_of (fold (\<lambda>(i, u) d. AList.update u (f i) d) (enumerate n P) d0) u \<noteq> None"
  by (induction P arbitrary: n d0) (auto simp: update_conv')

lemma targets_of_defined: "u \<in> set P \<Longrightarrow> map_of (targets_of P total_n) u \<noteq> None"
  unfolding targets_of_def Let_def by (rule fold_enumerate_defined) simp

lemma queue_of_need:
  "queue_of P (need_of P targets counts)
     = concat (map (\<lambda>u. replicate (nat (max 0 (the (map_of targets u) - dict_get counts u 0))) u) P)"
  unfolding queue_of_def need_of_def Let_def
  by (rule arg_cong [where f = concat], rule map_cong) (simp_all add: dict_get_dict_comp)

lemma assign_owners_other:
  "v \<notin> set vids \<Longrightarrow> map_of (assign_owners queue qi vids om) v = map_of om v"
  by (induction vids arbitrary: qi om) (auto simp: update_conv')

lemma assign_owners_nth:
  "distinct vids \<Longrightarrow> k < length vids \<Longrightarrow> qi < length queue \<Longrightarrow>
     map_of (assign_owners queue qi vids om) (vids ! k) = Some (queue ! ((qi + k) mod length queue))"
proof (induction vids arbitrary: qi om k)
  case Nil
  then show ?case by simp
next
  case (Cons v vs)
  show ?case
  proof (cases k)
    case 0
    with Cons.prems show ?thesis
      by (simp add: assign_owners_other update_conv')
  next
    case (Suc j)
    have "(qi + 1) mod length queue < length queue"
      using Cons.prems(3) by (intro mod_less_divisor) auto
    with Suc Cons.prems Cons.IH [of j "(qi + 1) mod length queue"] show ?thesis
      by (simp add: mod_add_left_eq)
  qed
qed


lemma demo_joined_participants: "participants_of demo_joined = [''alice'', ''bob'']"
  by (rule participants_alice_bob) (simp_all add: demo_joined_def)

lemma demo_joined_stale: "\<not> balance_fresh demo_joined"
  by (simp add: balance_fresh_def demo_joined_participants) (simp add: demo_joined_def)

text \<open>
  Claim C2. When the balancer recomputes for the sorted participant list \<open>P\<close> (not empty)
  over a catalog without duplicates: the \<open>i\<close>-th participant's target is \<open>base + 1\<close> for
  \<open>i < rem\<close> and \<open>base\<close> otherwise; the queue repeats each participant
  \<open>max(0, target - labeled count)\<close> times in the order of \<open>P\<close>; the \<open>k\<close>-th unlabeled item
  of the catalog is owned by \<open>queue[k mod len(queue)]\<close>; and with an empty queue the
  ownership map is empty.
\<close>

theorem C2_balancer:
  fixes s :: state
  defines "P \<equiv> participants_of s"
    and "total_n \<equiv> int (length (videos s))"
  defines "target \<equiv> \<lambda>i. total_n div int (length P) + (if int i < total_n mod int (length P) then 1 else 0)"
  defines "queue \<equiv> concat (map (\<lambda>i. replicate (nat (max 0 (target i - dict_get (per_user_counts s) (P ! i) 0))) (P ! i))
                               [0..<length P])"
    and "unlabeled \<equiv> filter (\<lambda>v. v \<notin> labeled_ids s) (videos s)"
  assumes recomputes: "\<not> balance_fresh s" and nonempty: "P \<noteq> []" and catalog: "distinct (videos s)"
  shows "sorted P \<and> distinct P
         \<and> (\<forall>i<length P. map_of (targets_of P total_n) (P ! i) = Some (target i))
         \<and> queue_of P (need_of P (targets_of P total_n) (per_user_counts s)) = queue
         \<and> (queue \<noteq> [] \<longrightarrow>
              (\<forall>k<length unlabeled.
                 map_of (owner_map (rebalance_if_needed s)) (unlabeled ! k) = Some (queue ! (k mod length queue))))
         \<and> (queue = [] \<longrightarrow> owner_map (rebalance_if_needed s) = [])"
proof -
  have P: "sorted P" "distinct P"
    by (simp_all add: P_def participants_of_def)
  have tg: "map_of (targets_of P total_n) (P ! i) = Some (target i)" if "i < length P" for i
    using targets_of_nth [OF P(2) that] by (simp add: target_def)
  let ?h = "\<lambda>u. replicate (nat (max 0 (the (map_of (targets_of P total_n) u)
                                        - dict_get (per_user_counts s) u 0))) u"
  have "map ?h P = map (\<lambda>i. ?h (P ! i)) [0..<length P]"
    by (rule nth_equalityI) simp_all
  also have "\<dots> = map (\<lambda>i. replicate (nat (max 0 (target i - dict_get (per_user_counts s) (P ! i) 0))) (P ! i))
                      [0..<length P]"
    by (rule map_cong) (simp_all add: tg)
  finally have q: "queue_of P (need_of P (targets_of P total_n) (per_user_counts s)) = queue"
    by (simp add: queue_of_need queue_def)
  have rb: "rebalance_if_needed s = recompute s"
    using recomputes by (simp add: rebalance_if_needed_def)
  have du: "distinct unlabeled"
    using catalog by (simp add: unlabeled_def)
  have own: "map_of (owner_map (rebalance_if_needed s)) (unlabeled ! k) = Some (queue ! (k mod length queue))"
    if "queue \<noteq> []" "k < length unlabeled" for k
  proof -
    have "unlabeled \<noteq> []"
      using that(2) by auto
    then have "owner_map (recompute s) = assign_owners queue 0 unlabeled []"
      using that(1) nonempty q
      by (simp add: recompute_def Let_def P_def [symmetric] total_n_def [symmetric] unlabeled_def [symmetric])
    moreover have "0 < length queue"
      using that(1) by simp
    ultimately show ?thesis
      using assign_owners_nth [OF du that(2), of 0 queue "[]"] by (simp add: rb)
  qed
  have none: "owner_map (rebalance_if_needed s) = []" if "queue = []"
    using that q
    by (simp add: rb recompute_def Let_def P_def [symmetric] total_n_def [symmetric])
  from P tg q own none show ?thesis
    by blast
qed


theorem C2_balancer_witness:
  "\<not> balance_fresh demo_joined
   \<and> participants_of demo_joined = [''alice'', ''bob'']
   \<and> distinct (videos demo_joined)
   \<and> map_of (targets_of [''alice'', ''bob''] 3) ''alice'' = Some 2
   \<and> map_of (targets_of [''alice'', ''bob''] 3) ''bob'' = Some 1
   \<and> queue_of [''alice'', ''bob''] (need_of [''alice'', ''bob''] (targets_of [''alice'', ''bob''] 3) [(''alice'', 1)])
        = [''alice'', ''bob'']
   \<and> map_of (owner_map (rebalance_if_needed demo_joined)) ''b.mp4'' = Some ''alice''
   \<and> map_of (owner_map (rebalance_if_needed demo_joined)) ''c.mp4'' = Some ''bob''"
proof -
  have d: "distinct (videos demo_joined)"
    by (simp add: demo_joined_def)
  have ne: "participants_of demo_joined \<noteq> []"
    by (simp add: demo_joined_participants)
  have v: "videos demo_joined = [''a.mp4'', ''b.mp4'', ''c.mp4'']"
      "labeled_ids demo_joined = {''a.mp4''}" "per_user_counts demo_joined = [(''alice'', 1)]"
    by (simp_all add: demo_joined_def)
  have u: "[0..<2] = [0, Suc 0]"
    by (simp add: upt_rec)
  note C2_balancer [OF demo_joined_stale ne d]
  then show ?thesis
    by (simp add: demo_joined_participants v u dict_get_def demo_joined_stale All_less_Suc
         numeral_2_eq_2 less_Suc_eq)
qed

section \<open>Leases\<close>

lemma map_of_fold_delete:
  "map_of (fold AList.delete ks d) k = (if k \<in> set ks then None else map_of d k)"
  by (induction ks arbitrary: d) (auto simp: delete_conv')

lemma prune_expired:
  assumes "map_of (assigned s) x = Some (a, ts)" "real_of_int (ASSIGNMENT_TTL_SEC cfg) < now - ts"
  shows "map_of (assigned (prune_assignments cfg now s)) x = None"
proof -
  have "(x, (a, ts)) \<in> set (assigned s)"
    using assms(1) by (rule map_of_SomeD)
  then have "x \<in> fst ` set (filter (\<lambda>(vid, info). now - snd info > real_of_int (ASSIGNMENT_TTL_SEC cfg))
                                    (assigned s))"
    using assms(2) by force
  then show ?thesis
    by (simp add: prune_assignments_def map_of_fold_delete)
qed

lemma prune_other_fields:
  "labeled_ids (prune_assignments cfg now s) = labeled_ids s"
  "owner_map (prune_assignments cfg now s) = owner_map s"
  "balance_sig (prune_assignments cfg now s) = balance_sig s"
  "per_user_counts (prune_assignments cfg now s) = per_user_counts s"
  "labels_file (prune_assignments cfg now s) = labels_file s"
  by (simp_all add: prune_assignments_def Let_def)

lemma peek_next_assigned:
  "assigned (snd (peek_next cfg e s)) = assigned (prune_assignments cfg (clock1 e) s)"
  by (simp add: peek_next_def eligible_videos_def prune_assignments_def Let_def)

lemma record_label_conflict:
  assumes "map_of (assigned s) x = Some (a, ts)" "b \<noteq> a" "rec_id p = Some x" "rec_user p = Some b"
  shows "record_label e p s =
           ((False, if x = [] \<or> b = [] \<or> rec_label p \<notin> {Some ''ok'', Some ''not_ok''}
                    then ''Invalid payload'' else ''Assigned to another user''), s)"
  using assms by (simp add: record_label_def Let_def)

lemma record_label_accept:
  assumes "rec_id p = Some x" "rec_user p = Some b" "x \<noteq> []" "b \<noteq> []"
    "rec_label p \<in> {Some ''ok'', Some ''not_ok''}"
    "map_of (assigned s) x = None \<or> map_option fst (map_of (assigned s) x) = Some b"
    "append_fail e = None"
  shows "record_label e p s =
           ((True, ''ok''),
            s\<lparr>labels_file := Some (file_lines (labels_file s) @ [Rec (p\<lparr>rec_ts := Some \<lfloor>clock1 e * 1000\<rfloor>\<rparr>)]),
              per_user_counts := AList.update b (dict_get (per_user_counts s) b 0 + 1) (per_user_counts s),
              labeled_ids := insert x (labeled_ids s),
              assigned := AList.delete x (assigned s)\<rparr>)"
  using assms by (auto simp add: record_label_def Let_def)

lemma record_label_releases:
  assumes "rec_id p = Some x" "fst (fst (record_label e p s))"
  shows "map_of (assigned (snd (record_label e p s))) x = None"
  using assms
  by (auto simp add: record_label_def Let_def delete_conv' split: option.splits if_splits)

lemma release_by_holder:
  assumes "map_of (assigned s) x = Some (a, ts)"
  shows "map_of (assigned (release x (Some a) s)) x = None"
    and "map_of (assigned (release x None s)) x = None"
  using assms by (simp_all add: release_def delete_conv')

lemma demo_leased_eq:
  "demo_leased =
     \<lparr>videos = [''a.mp4'', ''b.mp4'', ''c.mp4''], assigned = [(''a.mp4'', (''alice'', 0))],
      labeled_ids = {}, per_user_counts = [], active_users = {''alice''},
      owner_map = [(''a.mp4'', ''alice''), (''b.mp4'', ''alice''), (''c.mp4'', ''alice'')],
      balance_sig = Some ([''alice''], 3, 0), last_undo = [], labels_file = None, tmp_file = None\<rparr>"
proof -
  define t where "t = \<lparr>videos = [''a.mp4'', ''b.mp4'', ''c.mp4''], assigned = [],
      labeled_ids = {}, per_user_counts = [], active_users = {''alice''},
      owner_map = [], balance_sig = None, last_undo = [], labels_file = None, tmp_file = None :: line list option\<rparr>"
  have p: "participants_of t = [''alice'']"
    by (rule participants_alice) (simp_all add: t_def)
  have rb: "rebalance_if_needed t = t\<lparr>owner_map := [(''a.mp4'', ''alice''), (''b.mp4'', ''alice''), (''c.mp4'', ''alice'')],
                                      balance_sig := Some ([''alice''], 3, 0)\<rparr>"
    by (simp add: rebalance_if_needed_def balance_fresh_def recompute_def p Let_def)
      (simp add: t_def targets_alice need_alice queue_alice)
  show ?thesis
    using rb
    by (simp add: demo_leased_def assign_next_def init_state_def demo_env_def demo_cfg_def demo_catalog
        t_def eligible_videos_def prune_assignments_def truthy_def Let_def)
qed

lemma rebalance_assigned: "assigned (rebalance_if_needed s) = assigned s"
  by (simp add: rebalance_if_needed_def recompute_def Let_def)

lemma eligible_assigned:
  "assigned (snd (eligible_videos cfg w now s)) = assigned (prune_assignments cfg now s)"
  by (simp add: eligible_videos_def Let_def prune_assignments_def)

lemma peek_next_for_user_assigned:
  "assigned (snd (peek_next_for_user cfg e u s)) = assigned (prune_assignments cfg (clock1 e) s)"
  by (simp add: peek_next_for_user_def Let_def case_prod_unfold eligible_assigned)
     (simp add: prune_assignments_def rebalance_assigned)

lemma assign_next_assigned:
  "assigned (snd (assign_next cfg e u s)) = assigned (prune_assignments cfg (clock1 e) s)
   \<or> (\<exists>v. assigned (snd (assign_next cfg e u s))
             = AList.update v (u, clock2 e) (assigned (prune_assignments cfg (clock1 e) s)))"
proof -
  define t where "t = rebalance_if_needed (s\<lparr>videos := scan_videos (walk1 e),
                                               active_users := insert u (active_users s)\<rparr>)"
  have t: "assigned (snd (eligible_videos cfg (walk2 e) (clock1 e) t))
             = assigned (prune_assignments cfg (clock1 e) s)"
    by (simp add: eligible_assigned) (simp add: prune_assignments_def t_def rebalance_assigned)
  have "assigned (snd (assign_next cfg e u s)) = assigned (snd (eligible_videos cfg (walk2 e) (clock1 e) t))
        \<or> (\<exists>v. assigned (snd (assign_next cfg e u s))
                  = AList.update v (u, clock2 e) (assigned (snd (eligible_videos cfg (walk2 e) (clock1 e) t))))"
    by (auto simp: assign_next_def Let_def case_prod_unfold t_def split: option.splits)
  then show ?thesis
    by (simp only: t)
qed

lemma assign_next_lease:
  assumes "map_of (assigned (prune_assignments cfg (clock1 e) s)) x = None"
  shows "map_of (assigned (snd (assign_next cfg e u s))) x = None
       \<or> map_of (assigned (snd (assign_next cfg e u s))) x = Some (u, clock2 e)"
  using assign_next_assigned [of cfg e u s] assms
  by (auto simp: update_conv')

lemma demo_leased_again:
  "assigned (snd (assign_next demo_cfg (demo_env 1000) ''alice'' demo_leased))
     = [(''a.mp4'', (''alice'', 1000))]"
proof -
  define t where "t = demo_leased\<lparr>videos := [''a.mp4'', ''b.mp4'', ''c.mp4''],
                                  active_users := insert ''alice'' (active_users demo_leased)\<rparr>"
  have p: "participants_of t = [''alice'']"
    by (rule participants_alice) (simp_all add: t_def demo_leased_eq)
  have "balance_fresh t"
    by (simp add: balance_fresh_def p) (simp add: t_def demo_leased_eq)
  then have rb: "rebalance_if_needed t = t"
    by (simp add: rebalance_if_needed_def)
  show ?thesis
    using rb
    by (simp add: assign_next_def demo_env_def demo_cfg_def demo_catalog t_def demo_leased_eq
        eligible_videos_def prune_assignments_def truthy_def Let_def AList.delete_eq)
qed

text \<open>
  Claim C3, as the code runs it. While \<open>x\<close> is leased to \<open>a\<close> in the lease table, a submission
  for \<open>x\<close> by another user \<open>b\<close> is refused at every time and changes nothing (as a conflict
  when the payload is valid). The lease of \<open>a\<close> leaves the table when \<open>a\<close> submits, when \<open>a\<close> or
  an anonymous caller skips, and when an eligibility computation (\<open>_eligible_videos\<close>, run
  by \<open>peek_next\<close>, \<open>peek_next_for_user\<close> and \<open>assign_next\<close>) runs more than the TTL after the
  lease was taken; \<open>assign_next\<close> may, in the same call, lease \<open>x\<close> anew to its own caller.
  Whenever \<open>x\<close> has no lease, or is leased to \<open>b\<close>, a valid submission by \<open>b\<close> whose write
  succeeds is accepted and appended.
\<close>

theorem C3_lease:
  assumes lease: "map_of (assigned s) x = Some (a, ts)" and other: "b \<noteq> a"
    and who: "rec_id p = Some x" "rec_user p = Some b"
  shows "(\<forall>e. \<not> fst (fst (record_label e p s)) \<and> snd (record_label e p s) = s)
       \<and> (x \<noteq> [] \<and> b \<noteq> [] \<and> rec_label p \<in> {Some ''ok'', Some ''not_ok''}
            \<longrightarrow> (\<forall>e. fst (record_label e p s) = (False, ''Assigned to another user'')))
       \<and> (\<forall>e q. rec_id q = Some x \<and> fst (fst (record_label e q s))
            \<longrightarrow> map_of (assigned (snd (record_label e q s))) x = None)
       \<and> map_of (assigned (release x (Some a) s)) x = None
       \<and> map_of (assigned (release x None s)) x = None
       \<and> (\<forall>cfg w now. real_of_int (ASSIGNMENT_TTL_SEC cfg) < now - ts
            \<longrightarrow> map_of (assigned (snd (eligible_videos cfg w now s))) x = None)
       \<and> (\<forall>cfg e. real_of_int (ASSIGNMENT_TTL_SEC cfg) < clock1 e - ts
            \<longrightarrow> map_of (assigned (snd (peek_next cfg e s))) x = None)
       \<and> (\<forall>cfg e u. real_of_int (ASSIGNMENT_TTL_SEC cfg) < clock1 e - ts
            \<longrightarrow> map_of (assigned (snd (peek_next_for_user cfg e u s))) x = None)
       \<and> (\<forall>cfg e u. real_of_int (ASSIGNMENT_TTL_SEC cfg) < clock1 e - ts
            \<longrightarrow> map_of (assigned (snd (assign_next cfg e u s))) x = None
                \<or> map_of (assigned (snd (assign_next cfg e u s))) x = Some (u, clock2 e))
       \<and> (\<forall>s' e. (map_of (assigned s') x = None \<or> map_option fst (map_of (assigned s') x) = Some b)
               \<and> x \<noteq> [] \<and> b \<noteq> []
               \<and> rec_label p \<in> {Some ''ok'', Some ''not_ok''} \<and> append_fail e = None
            \<longrightarrow> fst (record_label e p s') = (True, ''ok'')
                \<and> labels_file (snd (record_label e p s'))
                    = Some (file_lines (labels_file s') @ [Rec (p\<lparr>rec_ts := Some \<lfloor>clock1 e * 1000\<rfloor>\<rparr>)]))"
proof -
  have 1: "\<not> fst (fst (record_label e p s)) \<and> snd (record_label e p s) = s" for e
    by (simp add: record_label_conflict [OF lease other who])
  have 2: "fst (record_label e p s) = (False, ''Assigned to another user'')"
    if "x \<noteq> [] \<and> b \<noteq> [] \<and> rec_label p \<in> {Some ''ok'', Some ''not_ok''}" for e
    using that by (simp add: record_label_conflict [OF lease other who])
  have 3: "map_of (assigned (snd (record_label e q s))) x = None"
    if "rec_id q = Some x \<and> fst (fst (record_label e q s))" for e q
    using that record_label_releases by blast
  have pr: "map_of (assigned (prune_assignments cfg now s)) x = None"
    if "real_of_int (ASSIGNMENT_TTL_SEC cfg) < now - ts" for cfg now
    using lease that by (rule prune_expired)
  have 4: "map_of (assigned (snd (eligible_videos cfg w now s))) x = None"
    if "real_of_int (ASSIGNMENT_TTL_SEC cfg) < now - ts" for cfg w now
    using pr [OF that] by (simp add: eligible_assigned)
  have 5: "map_of (assigned (snd (peek_next cfg e s))) x = None"
    if "real_of_int (ASSIGNMENT_TTL_SEC cfg) < clock1 e - ts" for cfg e
    using pr [OF that] by (simp add: peek_next_assigned)
  have 6: "map_of (assigned (snd (peek_next_for_user cfg e u s))) x = None"
    if "real_of_int (ASSIGNMENT_TTL_SEC cfg) < clock1 e - ts" for cfg e u
    using pr [OF that] by (simp add: peek_next_for_user_assigned)
  have 7: "map_of (assigned (snd (assign_next cfg e u s))) x = None
           \<or> map_of (assigned (snd (assign_next cfg e u s))) x = Some (u, clock2 e)"
    if "real_of_int (ASSIGNMENT_TTL_SEC cfg) < clock1 e - ts" for cfg e u
    using pr [OF that] by (rule assign_next_lease)
  have 8: "fst (record_label e p s') = (True, ''ok'')
           \<and> labels_file (snd (record_label e p s'))
                = Some (file_lines (labels_file s') @ [Rec (p\<lparr>rec_ts := Some \<lfloor>clock1 e * 1000\<rfloor>\<rparr>)])"
    if "(map_of (assigned s') x = None \<or> map_option fst (map_of (assigned s') x) = Some b)
               \<and> x \<noteq> [] \<and> b \<noteq> []
               \<and> rec_label p \<in> {Some ''ok'', Some ''not_ok''} \<and> append_fail e = None" for s' e
  proof -
    from that have h: "x \<noteq> []" "b \<noteq> []" "rec_label p \<in> {Some ''ok'', Some ''not_ok''}"
        "map_of (assigned s') x = None \<or> map_option fst (map_of (assigned s') x) = Some b"
        "append_fail e = None"
      by simp_all
    show ?thesis
      by (simp add: record_label_accept [OF who h])
  qed
  have c1: "\<forall>e. \<not> fst (fst (record_label e p s)) \<and> snd (record_label e p s) = s"
    using 1 by (rule allI)
  have c2: "x \<noteq> [] \<and> b \<noteq> [] \<and> rec_label p \<in> {Some ''ok'', Some ''not_ok''}
            \<longrightarrow> (\<forall>e. fst (record_label e p s) = (False, ''Assigned to another user''))"
    by (intro impI allI) (erule 2)
  have c3: "\<forall>e q. rec_id q = Some x \<and> fst (fst (record_label e q s))
            \<longrightarrow> map_of (assigned (snd (record_label e q s))) x = None"
    by (intro impI allI) (erule 3)
  have c4: "\<forall>cfg w now. real_of_int (ASSIGNMENT_TTL_SEC cfg) < now - ts
            \<longrightarrow> map_of (assigned (snd (eligible_videos cfg w now s))) x = None"
    by (intro impI allI) (erule 4)
  have c5: "\<forall>cfg e. real_of_int (ASSIGNMENT_TTL_SEC cfg) < clock1 e - ts
            \<longrightarrow> map_of (assigned (snd (peek_next cfg e s))) x = None"
    by (intro impI allI) (erule 5)
  have c6: "\<forall>cfg e u. real_of_int (ASSIGNMENT_TTL_SEC cfg) < clock1 e - ts
            \<longrightarrow> map_of (assigned (snd (peek_next_for_user cfg e u s))) x = None"
    by (intro impI allI) (erule 6)
  have c7: "\<forall>cfg e u. real_of_int (ASSIGNMENT_TTL_SEC cfg) < clock1 e - ts
            \<longrightarrow> map_of (assigned (snd (assign_next cfg e u s))) x = None
                \<or> map_of (assigned (snd (assign_next cfg e u s))) x = Some (u, clock2 e)"
    by (intro impI allI) (erule 7)
  have c8: "\<forall>s' e. (map_of (assigned s') x = None \<or> map_option fst (map_of (assigned s') x) = Some b)
               \<and> x \<noteq> [] \<and> b \<noteq> []
               \<and> rec_label p \<in> {Some ''ok'', Some ''not_ok''} \<and> append_fail e = None
            \<longrightarrow> fst (record_label e p s') = (True, ''ok'')
                \<and> labels_file (snd (record_label e p s'))
                    = Some (file_lines (labels_file s') @ [Rec (p\<lparr>rec_ts := Some \<lfloor>clock1 e * 1000\<rfloor>\<rparr>)])"
    by (intro impI allI) (erule 8)
  from c1 c2 c3 release_by_holder [OF lease] c4 c5 c6 c7 c8 show ?thesis
    by (intro conjI)
qed

theorem C3_lease_witness:
  "map_of (assigned demo_leased) ''a.mp4'' = Some (''alice'', 0)
   \<and> ''bob'' \<noteq> ''alice''
   \<and> \<not> fst (fst (record_label (demo_env 5) (submit ''bob'' (Some ''a.mp4'') ''ok'') demo_leased))
   \<and> snd (record_label (demo_env 5) (submit ''bob'' (Some ''a.mp4'') ''ok'') demo_leased) = demo_leased
   \<and> map_of (assigned (release ''a.mp4'' (Some ''alice'') demo_leased)) ''a.mp4'' = None
   \<and> map_of (assigned (snd (peek_next demo_cfg (demo_env 1000) demo_leased))) ''a.mp4'' = None
   \<and> fst (record_label (demo_env 1001) (submit ''bob'' (Some ''a.mp4'') ''ok'')
             (snd (peek_next demo_cfg (demo_env 1000) demo_leased))) = (True, ''ok'')
   \<and> fst (record_label (demo_env 1001) (submit ''bob'' (Some ''a.mp4'') ''ok'')
             (snd (assign_next demo_cfg (demo_env 1000) ''bob'' demo_leased))) = (True, ''ok'')
   \<and> map_of (assigned (snd (assign_next demo_cfg (demo_env 1000) ''alice'' demo_leased))) ''a.mp4''
       = Some (''alice'', 1000)
   \<and> fst (record_label (demo_env 1001) (submit ''bob'' (Some ''a.mp4'') ''ok'')
             (snd (assign_next demo_cfg (demo_env 1000) ''alice'' demo_leased)))
       = (False, ''Assigned to another user'')"
proof -
  let ?p = "submit ''bob'' (Some ''a.mp4'') ''ok''"
  have l: "map_of (assigned demo_leased) ''a.mp4'' = Some (''alice'', 0)"
    by (simp add: demo_leased_eq)
  have o: "''bob'' \<noteq> ''alice''"
    by simp
  have w: "rec_id ?p = Some ''a.mp4''" "rec_user ?p = Some ''bob''"
      "''a.mp4'' \<noteq> [] \<and> ''bob'' \<noteq> [] \<and> rec_label ?p \<in> {Some ''ok'', Some ''not_ok''}"
    by (simp_all add: submit_def)
  have w4: "rec_label ?p = Some ''ok''"
    by (simp add: submit_def)
  have t: "real_of_int (ASSIGNMENT_TTL_SEC demo_cfg) < clock1 (demo_env 1000) - 0"
    by (simp add: demo_cfg_def demo_env_def)
  have a: "append_fail (demo_env 1001) = None" "clock2 (demo_env 1000) = 1000"
    by (simp_all add: demo_env_def)
  note inst = C3_lease [OF l o w(1,2)]
  note refused = inst [THEN conjunct1, rule_format]
  note released = inst [THEN conjunct2, THEN conjunct2, THEN conjunct2, THEN conjunct1]
  note peeked = inst [THEN conjunct2, THEN conjunct2, THEN conjunct2, THEN conjunct2, THEN conjunct2,
      THEN conjunct2, THEN conjunct1, rule_format, OF t]
  note assigned_bob = inst [THEN conjunct2, THEN conjunct2, THEN conjunct2, THEN conjunct2, THEN conjunct2,
      THEN conjunct2, THEN conjunct2, THEN conjunct2, THEN conjunct1, rule_format, OF t, of "''bob''"]
  note accepted = inst [THEN conjunct2, THEN conjunct2, THEN conjunct2, THEN conjunct2, THEN conjunct2,
      THEN conjunct2, THEN conjunct2, THEN conjunct2, THEN conjunct2, rule_format, THEN conjunct1]
  have g1: "fst (record_label (demo_env 1001) ?p (snd (peek_next demo_cfg (demo_env 1000) demo_leased)))
              = (True, ''ok'')"
    by (rule accepted) (simp add: peeked w4 a(1))
  have "map_of (assigned (snd (assign_next demo_cfg (demo_env 1000) ''bob'' demo_leased))) ''a.mp4'' = None
        \<or> map_option fst (map_of (assigned (snd (assign_next demo_cfg (demo_env 1000) ''bob'' demo_leased))) ''a.mp4'')
            = Some ''bob''"
    using assigned_bob by auto
  then have g2: "fst (record_label (demo_env 1001) ?p
                        (snd (assign_next demo_cfg (demo_env 1000) ''bob'' demo_leased))) = (True, ''ok'')"
    by (intro accepted) (simp add: w4 a(1))
  have l2: "map_of (assigned (snd (assign_next demo_cfg (demo_env 1000) ''alice'' demo_leased))) ''a.mp4''
              = Some (''alice'', 1000)"
    by (simp add: demo_leased_again)
  note again = C3_lease [OF l2 o w(1,2), THEN conjunct2, THEN conjunct1, rule_format, OF w(3)]
  show ?thesis
    by (intro conjI) (rule l, rule o, rule refused [THEN conjunct1], rule refused [THEN conjunct2],
        rule released, rule peeked, rule g1, rule g2, rule l2, rule again)
qed

text \<open>
  Time alone does not lift the refusal: \<open>record_label\<close> does not prune. With the lease
  taken at time 0 and a TTL of 180 seconds, bob's submission at time 1000 is refused.
\<close>

theorem C3_lease_counterexample:
  "map_of (assigned demo_leased) ''a.mp4'' = Some (''alice'', 0)
   \<and> real_of_int (ASSIGNMENT_TTL_SEC demo_cfg) < clock1 (demo_env 1000) - 0
   \<and> record_label (demo_env 1000) (submit ''bob'' (Some ''a.mp4'') ''ok'') demo_leased
       = ((False, ''Assigned to another user''), demo_leased)"
  by (simp add: demo_leased_eq record_label_def submit_def demo_cfg_def demo_env_def Let_def)

section \<open>Appending a label\<close>

lemma sum_list_update:
  "sum_list (map snd (AList.update k v al)) = sum_list (map snd al) - dict_get al k 0 + (v :: int)"
  by (induction al) (auto simp: dict_get_def)

lemma dict_get_update: "dict_get (AList.update k v al) k d = v"
  by (simp add: dict_get_def update_conv')

text \<open>
  Claim C10. \<open>record_label\<close> never looks at the catalog: a payload with a nonempty
  identifier, a nonempty user and a label \<open>ok\<close> or \<open>not_ok\<close>, whose identifier is not leased to
  another user and whose write succeeds, is accepted and appended whatever \<open>videos\<close>
  holds. The identifier enters the labeled set, the user's count grows by one, and the
  global labeled count of \<open>/api/stats\<close> counts it (the size of the labeled set in
  single-label mode, the sum of the per-user counts otherwise).
\<close>

theorem C10_no_catalog_check:
  assumes "rec_id p = Some x" and "rec_user p = Some u" and "x \<noteq> []" and "u \<noteq> []"
    and "rec_label p \<in> {Some ''ok'', Some ''not_ok''}"
    and "map_of (assigned s) x = None \<or> map_option fst (map_of (assigned s) x) = Some u"
    and "append_fail e = None"
  shows "fst (record_label e p s) = (True, ''ok'')
       \<and> labels_file (snd (record_label e p s))
           = Some (file_lines (labels_file s) @ [Rec (p\<lparr>rec_ts := Some \<lfloor>clock1 e * 1000\<rfloor>\<rparr>)])
       \<and> labeled_ids (snd (record_label e p s)) = insert x (labeled_ids s)
       \<and> dict_get (per_user_counts (snd (record_label e p s))) u 0 = dict_get (per_user_counts s) u 0 + 1
       \<and> labeled_global cfg (snd (record_label e p s))
           = (if SINGLE_LABEL_PER_VIDEO cfg then int (card (insert x (labeled_ids s)))
              else labeled_global cfg s + 1)"
  using record_label_accept [OF assms]
  by (simp add: dict_get_update labeled_global_def sum_list_update)

theorem C10_no_catalog_check_witness:
  "''ghost.mp4'' \<notin> set (videos demo_leased)
   \<and> map_of (assigned demo_leased) ''ghost.mp4'' = None
   \<and> append_fail (demo_env 7) = None
   \<and> fst (record_label (demo_env 7) (submit ''bob'' (Some ''ghost.mp4'') ''not_ok'') demo_leased) = (True, ''ok'')
   \<and> labels_file (snd (record_label (demo_env 7) (submit ''bob'' (Some ''ghost.mp4'') ''not_ok'') demo_leased))
       = Some [Rec ((submit ''bob'' (Some ''ghost.mp4'') ''not_ok'')\<lparr>rec_ts := Some 7000\<rparr>)]
   \<and> labeled_ids (snd (record_label (demo_env 7) (submit ''bob'' (Some ''ghost.mp4'') ''not_ok'') demo_leased))
       = {''ghost.mp4''}
   \<and> dict_get (per_user_counts (snd (record_label (demo_env 7) (submit ''bob'' (Some ''ghost.mp4'') ''not_ok'') demo_leased)))
        ''bob'' 0 = 1
   \<and> labeled_global demo_cfg (snd (record_label (demo_env 7) (submit ''bob'' (Some ''ghost.mp4'') ''not_ok'') demo_leased)) = 1"
proof -
  have l: "map_of (assigned demo_leased) ''ghost.mp4'' = None
           \<or> map_option fst (map_of (assigned demo_leased) ''ghost.mp4'') = Some ''bob''"
    by (simp add: demo_leased_eq)
  have a: "append_fail (demo_env 7) = None"
    by (simp add: demo_env_def)
  have w: "rec_id (submit ''bob'' (Some ''ghost.mp4'') ''not_ok'') = Some ''ghost.mp4''"
      "rec_user (submit ''bob'' (Some ''ghost.mp4'') ''not_ok'') = Some ''bob''"
      "rec_label (submit ''bob'' (Some ''ghost.mp4'') ''not_ok'') \<in> {Some ''ok'', Some ''not_ok''}"
    by (simp_all add: submit_def)
  have n: "''ghost.mp4'' \<noteq> []" "''bob'' \<noteq> []"
    by simp_all
  have v: "''ghost.mp4'' \<notin> set (videos demo_leased)" "labeled_ids demo_leased = {}"
      "per_user_counts demo_leased = []" "labels_file demo_leased = None"
      "map_of (assigned demo_leased) ''ghost.mp4'' = None"
    by (simp_all add: demo_leased_eq)
  have c: "clock1 (demo_env 7) = 7" "SINGLE_LABEL_PER_VIDEO demo_cfg"
    by (simp_all add: demo_env_def demo_cfg_def)
  from C10_no_catalog_check [OF w(1,2) n w(3) l a, of demo_cfg] v a c show ?thesis
    by (simp add: dict_get_def file_lines_def)
qed

section \<open>Removing a label\<close>

lemma remove_scan_raises:
  "NonDict \<in> set ls \<Longrightarrow> remove_scan user vid ls rows removed = None"
  by (induction user vid ls rows removed rule: remove_scan.induct) auto

lemma remove_scan_done:
  "NonDict \<notin> set ls \<Longrightarrow> removed \<noteq> 0 \<Longrightarrow>
     remove_scan user vid ls rows removed = Some (rows @ records_of ls, removed)"
  by (induction user vid ls rows removed rule: remove_scan.induct) auto

lemma remove_scan_absent:
  "NonDict \<notin> set ls \<Longrightarrow>
   \<forall>r \<in> set (records_of ls). \<not> (rec_user r = Some user \<and> rec_id r = Some vid) \<Longrightarrow>
     remove_scan user vid ls rows removed = Some (rows @ records_of ls, removed)"
  by (induction user vid ls rows removed rule: remove_scan.induct) auto

lemma remove_scan_absent_weak:
  "\<forall>r \<in> set (records_of ls). \<not> (rec_user r = Some user \<and> rec_id r = Some vid) \<Longrightarrow>
     remove_scan user vid ls rows removed = None
     \<or> (\<exists>rows'. remove_scan user vid ls rows removed = Some (rows', removed))"
  by (induction user vid ls rows removed rule: remove_scan.induct) auto

lemma remove_scan_first:
  "NonDict \<notin> set ls \<Longrightarrow> records_of ls = pre @ r # post \<Longrightarrow>
   \<forall>q \<in> set pre. \<not> (rec_user q = Some user \<and> rec_id q = Some vid) \<Longrightarrow>
   rec_user r = Some user \<Longrightarrow> rec_id r = Some vid \<Longrightarrow>
     remove_scan user vid ls rows 0 = Some (rows @ pre @ post, 1)"
proof (induction user vid ls rows "0::nat" arbitrary: pre rule: remove_scan.induct)
  case (5 user vid q ls rows)
  show ?case
  proof (cases pre)
    case Nil
    with 5 show ?thesis by (simp add: remove_scan_done)
  next
    case (Cons p pre')
    with 5 show ?thesis by auto
  qed
qed auto


lemma rewrite_ledger_ok:
  "tmp_write e = TmpOk \<Longrightarrow>
     rewrite_ledger e rows s = (True, s\<lparr>labels_file := Some (map Rec rows), tmp_file := None\<rparr>)"
  by (simp add: rewrite_ledger_def)

lemma rewrite_ledger_fails:
  "tmp_write e \<noteq> TmpOk \<Longrightarrow> cleanup_ok e \<Longrightarrow> rewrite_ledger e rows s = (False, s\<lparr>tmp_file := None\<rparr>)"
  by (cases "tmp_write e") (auto simp: rewrite_ledger_def Let_def)

lemma rewrite_ledger_fails_frame:
  "tmp_write e \<noteq> TmpOk \<Longrightarrow>
     \<not> fst (rewrite_ledger e rows s)
     \<and> (snd (rewrite_ledger e rows s))\<lparr>tmp_file := tmp_file s\<rparr> = s"
  by (cases "tmp_write e") (auto simp: rewrite_ledger_def Let_def)

lemma demo_records:
  "rec_id demo_r1 = Some ''a.mp4''" "rec_user demo_r1 = Some ''alice''"
  "rec_id demo_r2 = Some ''b.mp4''" "rec_user demo_r2 = Some ''bob''"
  "rec_id demo_r3 = Some ''c.mp4''" "rec_user demo_r3 = Some ''alice''"
  by (simp_all add: demo_r1_def demo_r2_def demo_r3_def submit_def)

lemma demo_labeled_file:
  "labels_file demo_labeled = Some [Rec demo_r1, Rec demo_r2, Blank, Rec demo_r3]"
  "file_lines (labels_file demo_labeled) = [Rec demo_r1, Rec demo_r2, Blank, Rec demo_r3]"
  "records_of [Rec demo_r1, Rec demo_r2, Blank, Rec demo_r3] = [demo_r1, demo_r2, demo_r3]"
  by (simp_all add: demo_labeled_def file_lines_def)

text \<open>
  Claim C5. When no record of the ledger matches the user and the item, \<open>remove_label\<close>
  leaves the whole state as it was: the ledger file, the temporary file (nothing is
  rewritten) and every field in memory. For a nonempty user and item (an empty string is
  the request layer's "missing") and a ledger that can be read, the answer is the
  success result \<open>not found\<close>.
\<close>

theorem C5_remove_absent:
  assumes absent: "\<forall>r \<in> set (records_of (file_lines (labels_file s))).
                     \<not> (rec_user r = Some user \<and> rec_id r = Some vid)"
  shows "snd (remove_label e user vid s) = s
       \<and> (user \<noteq> [] \<and> vid \<noteq> [] \<and> read_ok e \<and> NonDict \<notin> set (file_lines (labels_file s))
            \<longrightarrow> fst (remove_label e user vid s) = (True, ''not found''))"
proof (cases "labels_file s")
  case None
  then show ?thesis
    by (simp add: remove_label_def)
next
  case (Some ls)
  with absent have a: "\<forall>r \<in> set (records_of ls). \<not> (rec_user r = Some user \<and> rec_id r = Some vid)"
    by (simp add: file_lines_def)
  have frame: "snd (remove_label e user vid s) = s"
    using remove_scan_absent_weak [OF a, of "[]" 0] Some
    by (auto simp: remove_label_def)
  have found: "fst (remove_label e user vid s) = (True, ''not found'')"
    if "user \<noteq> []" "vid \<noteq> []" "read_ok e" "NonDict \<notin> set ls"
    using that Some remove_scan_absent [OF that(4) a, of "[]" 0]
    by (simp add: remove_label_def)
  from frame found Some show ?thesis
    by (simp add: file_lines_def)
qed

theorem C5_remove_absent_witness:
  "remove_label (demo_env 9) ''bob'' ''a.mp4'' demo_labeled = ((True, ''not found''), demo_labeled)"
proof -
  have "\<forall>r \<in> set (records_of (file_lines (labels_file demo_labeled))).
          \<not> (rec_user r = Some ''bob'' \<and> rec_id r = Some ''a.mp4'')"
    by (simp add: demo_labeled_file file_lines_def demo_records)
  from C5_remove_absent [OF this, of "demo_env 9"] show ?thesis
    by (simp add: demo_labeled_file file_lines_def demo_env_def prod_eq_iff)
qed

text \<open>
  Claim C6. When some record matches the (nonempty) user and item, the ledger is readable
  and the rewrite succeeds, \<open>remove_label\<close> drops the earliest matching record only: the
  records split as \<open>pre @ r # post\<close> with \<open>r\<close> the first match, and the new ledger is
  \<open>pre @ post\<close>, one record per line. The user's count becomes \<open>max(0, count - 1)\<close>, the item
  leaves the labeled set, the balancer signature is reset, and nothing else changes.
\<close>

theorem C6_remove_first:
  assumes params: "user \<noteq> []" "vid \<noteq> []"
    and ledger: "labels_file s = Some ls" and readable: "read_ok e" "NonDict \<notin> set ls"
    and written: "tmp_write e = TmpOk"
    and present: "\<exists>r \<in> set (records_of ls). rec_user r = Some user \<and> rec_id r = Some vid"
  shows "\<exists>pre r post.
           records_of ls = pre @ r # post
         \<and> rec_user r = Some user \<and> rec_id r = Some vid
         \<and> (\<forall>q \<in> set pre. \<not> (rec_user q = Some user \<and> rec_id q = Some vid))
         \<and> remove_label e user vid s =
             ((True, ''ok''),
              s\<lparr>labels_file := Some (map Rec (pre @ post)),
                tmp_file := None,
                per_user_counts :=
                  AList.update user (max 0 (dict_get (per_user_counts s) user 0 - 1)) (per_user_counts s),
                labeled_ids := labeled_ids s - {vid},
                balance_sig := None\<rparr>)"
proof -
  from present obtain pre r post where split: "records_of ls = pre @ r # post"
    and hit: "rec_user r = Some user \<and> rec_id r = Some vid"
    and first: "\<forall>q \<in> set pre. \<not> (rec_user q = Some user \<and> rec_id q = Some vid)"
    using split_list_first_prop [of "records_of ls" "\<lambda>r. rec_user r = Some user \<and> rec_id r = Some vid"]
    by blast
  have scan: "remove_scan user vid ls [] 0 = Some (pre @ post, 1)"
    using remove_scan_first [OF readable(2) split first, of "[]"] hit by simp
  have "remove_label e user vid s =
             ((True, ''ok''),
              s\<lparr>labels_file := Some (map Rec (pre @ post)),
                tmp_file := None,
                per_user_counts :=
                  AList.update user (max 0 (dict_get (per_user_counts s) user 0 - 1)) (per_user_counts s),
                labeled_ids := labeled_ids s - {vid},
                balance_sig := None\<rparr>)"
    using params ledger readable(1) scan
    by (simp add: remove_label_def rewrite_ledger_ok [OF written])
  with split hit first show ?thesis
    by blast
qed


theorem C6_remove_first_witness:
  "remove_label (demo_env 9) ''alice'' ''c.mp4'' demo_labeled =
     ((True, ''ok''),
      demo_labeled\<lparr>labels_file := Some [Rec demo_r1, Rec demo_r2],
                   tmp_file := None,
                   per_user_counts := [(''alice'', 1), (''bob'', 1)],
                   labeled_ids := {''a.mp4'', ''b.mp4''},
                   balance_sig := None\<rparr>)"
proof -
  have p: "\<exists>r \<in> set (records_of [Rec demo_r1, Rec demo_r2, Blank, Rec demo_r3]).
             rec_user r = Some ''alice'' \<and> rec_id r = Some ''c.mp4''"
    by (simp add: demo_records)
  have e: "read_ok (demo_env 9)" "tmp_write (demo_env 9) = TmpOk"
    by (simp_all add: demo_env_def)
  have n: "''alice'' \<noteq> []" "''c.mp4'' \<noteq> []" "NonDict \<notin> set [Rec demo_r1, Rec demo_r2, Blank, Rec demo_r3]"
    by simp_all
  from C6_remove_first [OF n(1,2) demo_labeled_file(1) e(1) n(3) e(2) p]
  obtain pre r post where split: "[demo_r1, demo_r2, demo_r3] = pre @ r # post"
    and hit: "rec_id r = Some ''c.mp4''"
    and res: "remove_label (demo_env 9) ''alice'' ''c.mp4'' demo_labeled =
             ((True, ''ok''),
              demo_labeled\<lparr>labels_file := Some (map Rec (pre @ post)),
                tmp_file := None,
                per_user_counts :=
                  AList.update ''alice'' (max 0 (dict_get (per_user_counts demo_labeled) ''alice'' 0 - 1))
                    (per_user_counts demo_labeled),
                labeled_ids := labeled_ids demo_labeled - {''c.mp4''},
                balance_sig := None\<rparr>)"
    by (auto simp: demo_labeled_file)
  from split hit have "pre @ post = [demo_r1, demo_r2]"
    by (auto simp: Cons_eq_append_conv demo_records)
  moreover have "labeled_ids demo_labeled - {''c.mp4''} = {''a.mp4'', ''b.mp4''}"
    by (auto simp: demo_labeled_def)
  moreover have "AList.update ''alice'' (max 0 (dict_get (per_user_counts demo_labeled) ''alice'' 0 - 1))
                    (per_user_counts demo_labeled) = [(''alice'', 1), (''bob'', 1)]"
    by (simp add: demo_labeled_def dict_get_def)
  ultimately show ?thesis
    using res by simp
qed

section \<open>Undoing\<close>

lemma undo_scan_raises: "NonDict \<in> set ls \<Longrightarrow> undo_scan user ls rows idx = None"
  by (induction user ls rows idx rule: undo_scan.induct) (auto simp: Let_def)

lemma undo_scan_rows:
  "NonDict \<notin> set ls \<Longrightarrow>
     undo_scan user ls rows idx =
       Some (rows @ records_of ls,
             idx @ map fst (filter (\<lambda>(i, r). rec_user r = Some user)
                                   (enumerate (length rows) (records_of ls))))"
  by (induction user ls rows idx rule: undo_scan.induct) (auto simp: Let_def)

lemma undo_split_filter:
  "undo_split R irs ids recs new =
     (ids @ ids_of (map snd (filter (\<lambda>(i, r). i \<in> R) irs)),
      recs @ map snd (filter (\<lambda>(i, r). i \<in> R) irs),
      new @ map snd (filter (\<lambda>(i, r). i \<notin> R) irs))"
  by (induction R irs ids recs new rule: undo_split.induct)
     (auto simp: ids_of_def split: option.splits)

lemma filter_drop_keys:
  "distinct (map fst xs) \<Longrightarrow>
     filter (\<lambda>x. fst x \<in> set (drop d (map fst (filter Q xs)))) xs = drop d (filter Q xs)"
proof (induction xs arbitrary: d)
  case Nil
  then show ?case by simp
next
  case (Cons x xs)
  have out: "fst x \<notin> set (drop n (map fst (filter Q xs)))" for n
    using Cons.prems by (auto dest!: in_set_dropD)
  have same: "filter (\<lambda>y. fst y = fst x \<or> R y) xs = filter R xs" for R
    using Cons.prems by (intro filter_cong) (auto simp: image_iff)
  show ?case
  proof (cases "Q x")
    case False
    with Cons out show ?thesis by simp
  next
    case True
    show ?thesis
    proof (cases d)
      case 0
      with True Cons.prems Cons.IH [of 0] show ?thesis
        by (simp add: same)
    next
      case (Suc d')
      with True Cons.prems Cons.IH [of d'] out [of d'] show ?thesis
        by simp
    qed
  qed
qed

lemma map_snd_filter_enumerate:
  "map snd (filter (\<lambda>(i, r). P r) (enumerate n rows)) = filter P rows"
  by (induction rows arbitrary: n) auto

lemma selected_batch:
  "map snd (filter (\<lambda>(i, r). i \<in> set (drop d (map fst (filter (\<lambda>(i, r). P r) (enumerate n rows)))))
                   (enumerate n rows))
     = drop d (filter P rows)"
proof -
  have "distinct (map fst (enumerate n rows))"
    by simp
  from filter_drop_keys [OF this, of d "\<lambda>(i, r). P r"]
  have "filter (\<lambda>(i, r). i \<in> set (drop d (map fst (filter (\<lambda>(i, r). P r) (enumerate n rows)))))
               (enumerate n rows)
          = drop d (filter (\<lambda>(i, r). P r) (enumerate n rows))"
    by (simp only: case_prod_unfold)
  then have "map snd (filter (\<lambda>(i, r). i \<in> set (drop d (map fst (filter (\<lambda>(i, r). P r) (enumerate n rows)))))
                          (enumerate n rows))
          = map snd (drop d (filter (\<lambda>(i, r). P r) (enumerate n rows)))"
    by (rule arg_cong)
  also have "\<dots> = drop d (map snd (filter (\<lambda>(i, r). P r) (enumerate n rows)))"
    by (rule drop_map [symmetric])
  finally show ?thesis
    by (simp only: map_snd_filter_enumerate)
qed

lemma split_count:
  "count_list (map snd (filter (\<lambda>(i, r). i \<notin> R) (enumerate n rows))) x
     + count_list (map snd (filter (\<lambda>(i, r). i \<in> R) (enumerate n rows))) x = count_list rows x"
  by (induction rows arbitrary: n) auto

lemma length_user_positions:
  "length (filter (\<lambda>(i, r). P r) (enumerate n rows)) = length (filter P rows)"
  using arg_cong [OF map_snd_filter_enumerate [of P n rows], of length] by simp

lemma undo_last_result:
  fixes s :: state and user :: string and ls :: "line list" and count :: int
  defines "mine \<equiv> filter (\<lambda>r. rec_user r = Some user) (records_of ls)"
  defines "d \<equiv> length mine - nat (min count (int (length mine)))"
  defines "R \<equiv> set (drop d (map fst (filter (\<lambda>(i, r). rec_user r = Some user)
                                             (enumerate 0 (records_of ls)))))"
  defines "kept \<equiv> map snd (filter (\<lambda>(i, r). i \<notin> R) (enumerate 0 (records_of ls)))"
  assumes "user \<noteq> []" "0 < count" "labels_file s = Some ls" "read_ok e" "NonDict \<notin> set ls"
    and "mine \<noteq> []"
  shows "undo_last e user count s =
           (if \<not> fst (rewrite_ledger e kept s)
            then ((False, ''failed to write'', []), snd (rewrite_ledger e kept s))
            else if ids_of (drop d mine) \<noteq> []
            then ((True, ''ok'', ids_of (drop d mine)),
                  (snd (rewrite_ledger e kept s))
                    \<lparr>per_user_counts :=
                       AList.update user
                         (max 0 (dict_get (per_user_counts (snd (rewrite_ledger e kept s))) user 0
                                 - int (length (ids_of (drop d mine)))))
                         (per_user_counts (snd (rewrite_ledger e kept s))),
                     labeled_ids := labeled_ids (snd (rewrite_ledger e kept s)) - set (ids_of (drop d mine)),
                     balance_sig := None,
                     last_undo := AList.update user (drop d mine) (last_undo (snd (rewrite_ledger e kept s)))\<rparr>)
            else ((True, ''ok'', ids_of (drop d mine)), snd (rewrite_ledger e kept s)))"
proof -
  define pos where "pos = map fst (filter (\<lambda>(i, r). rec_user r = Some user) (enumerate 0 (records_of ls)))"
  have scan: "undo_scan user ls [] [] = Some (records_of ls, pos)"
    using undo_scan_rows [OF assms(9), of user "[]" "[]"] by (simp add: pos_def)
  have len: "length pos = length mine"
    by (simp add: mine_def pos_def length_user_positions)
  have ne: "pos \<noteq> []"
    using len assms(10) by (metis length_0_conv)
  have sel: "map snd (filter (\<lambda>(i, r). i \<in> R) (enumerate 0 (records_of ls))) = drop d mine"
    unfolding R_def mine_def by (rule selected_batch)
  have "R = set (drop d pos)"
    by (simp add: R_def pos_def)
  then have R: "set (drop (length pos - nat (min count (int (length pos)))) pos) = R"
    by (simp add: len d_def)
  have split: "undo_split (set (drop (length pos - nat (min count (int (length pos)))) pos))
                 (enumerate 0 (records_of ls)) [] [] []
               = (ids_of (drop d mine), drop d mine, kept)"
    by (simp only: undo_split_filter R sel kept_def append_Nil)
  show ?thesis
    using assms(5-8) ne
    by (simp add: undo_last_def scan split Let_def case_prod_unfold)
qed


lemma in_positions:
  assumes d: "distinct (map fst xs)" and x: "x \<in> set xs"
  shows "(fst x \<in> fst ` set (filter Q xs)) = Q x"
proof
  assume "fst x \<in> fst ` set (filter Q xs)"
  then obtain y where y: "y \<in> set xs" "Q y" "fst y = fst x"
    by auto
  have "(fst y, snd y) \<in> set xs" "(fst x, snd x) \<in> set xs"
    using y(1) x by simp_all
  then have "(fst x, snd y) \<in> set xs" "(fst x, snd x) \<in> set xs"
    by (simp_all only: y(3))
  then have "snd y = snd x"
    by (rule eq_key_imp_eq_value [OF d])
  with y(3) have "y = x"
    by (simp add: prod_eq_iff)
  with y(2) show "Q x"
    by simp
next
  assume "Q x"
  with x show "fst x \<in> fst ` set (filter Q xs)"
    by auto
qed

lemma kept_all:
  "map snd (filter (\<lambda>(i, r). i \<notin> set (drop 0 (map fst (filter (\<lambda>(i, r). P r) (enumerate n rows)))))
                   (enumerate n rows))
     = filter (\<lambda>r. \<not> P r) rows"
proof -
  have "filter (\<lambda>(i, r). i \<notin> set (drop 0 (map fst (filter (\<lambda>(i, r). P r) (enumerate n rows)))))
               (enumerate n rows)
          = filter (\<lambda>(i, r). \<not> P r) (enumerate n rows)"
    by (rule filter_cong [OF refl])
       (use in_positions [of "enumerate n rows" _ "\<lambda>(i, r). P r"] in \<open>auto simp: case_prod_unfold\<close>)
  then show ?thesis
    by (simp only: map_snd_filter_enumerate)
qed

lemma ids_of_truthy:
  "\<forall>r \<in> set rs. truthy (rec_id r) \<Longrightarrow> map Some (ids_of rs) = map rec_id rs"
  by (induction rs) (auto simp: ids_of_def truthy_def split: option.splits)

lemma demo_labeled_rows:
  "NonDict \<notin> set [Rec demo_r1, Rec demo_r2, Blank, Rec demo_r3]"
  "filter (\<lambda>r. rec_user r = Some ''alice'') [demo_r1, demo_r2, demo_r3] = [demo_r1, demo_r3]"
  "filter (\<lambda>r. rec_user r \<noteq> Some ''alice'') [demo_r1, demo_r2, demo_r3] = [demo_r2]"
  "ids_of [demo_r1, demo_r3] = [''a.mp4'', ''c.mp4'']"
  by (simp_all add: demo_records ids_of_def)

text \<open>
  Claim C9. When the (nonempty) user has \<open>m \<ge> 1\<close> records, each with an item identifier,
  and \<open>undo_last\<close> is called with a count above \<open>m\<close> on a readable ledger whose rewrite
  succeeds, the call answers \<open>ok\<close>: the ledger keeps exactly the other users' records in
  their order, the identifiers returned are those of the \<open>m\<close> records in order, the count
  drops by \<open>m\<close> (not below 0), the identifiers leave the labeled set, the signature is
  reset and the \<open>m\<close> records become the user's undo buffer.
\<close>

theorem C9_undo_clamps:
  fixes s :: state and user :: string and ls :: "line list" and count :: int
  defines "mine \<equiv> filter (\<lambda>r. rec_user r = Some user) (records_of ls)"
  assumes "user \<noteq> []" and "labels_file s = Some ls" and "read_ok e" and "NonDict \<notin> set ls"
    and "tmp_write e = TmpOk"
    and "1 \<le> length mine" and "int (length mine) < count"
    and "\<forall>r \<in> set mine. truthy (rec_id r)"
  shows "undo_last e user count s =
           ((True, ''ok'', ids_of mine),
            s\<lparr>labels_file := Some (map Rec (filter (\<lambda>r. rec_user r \<noteq> Some user) (records_of ls))),
              tmp_file := None,
              per_user_counts :=
                AList.update user (max 0 (dict_get (per_user_counts s) user 0 - int (length mine)))
                  (per_user_counts s),
              labeled_ids := labeled_ids s - set (ids_of mine),
              balance_sig := None,
              last_undo := AList.update user mine (last_undo s)\<rparr>)
         \<and> map Some (ids_of mine) = map rec_id mine
         \<and> length (ids_of mine) = length mine"
proof -
  have ids: "map Some (ids_of mine) = map rec_id mine"
    using assms(9) by (rule ids_of_truthy)
  have len: "length (ids_of mine) = length mine"
    using map_eq_imp_length_eq [OF ids] by simp
  have ne: "mine \<noteq> []" "ids_of mine \<noteq> []"
    using assms(7) len by auto
  have d: "length mine - nat (min count (int (length mine))) = 0"
    using assms(8) by simp
  have pos: "0 < count"
    using assms(7,8) by simp
  have kept: "map snd (filter (\<lambda>(i, r). i \<notin> set (drop 0 (map fst (filter (\<lambda>(i, r). rec_user r = Some user)
                                             (enumerate 0 (records_of ls))))))
                               (enumerate 0 (records_of ls)))
                = filter (\<lambda>r. rec_user r \<noteq> Some user) (records_of ls)"
    by (rule kept_all)
  note undo_last_result [OF assms(2) pos assms(3-5) ne(1) [unfolded mine_def], folded mine_def]
  note res = this [unfolded d kept]
  have main: "undo_last e user count s =
           ((True, ''ok'', ids_of mine),
            s\<lparr>labels_file := Some (map Rec (filter (\<lambda>r. rec_user r \<noteq> Some user) (records_of ls))),
              tmp_file := None,
              per_user_counts :=
                AList.update user (max 0 (dict_get (per_user_counts s) user 0 - int (length mine)))
                  (per_user_counts s),
              labeled_ids := labeled_ids s - set (ids_of mine),
              balance_sig := None,
              last_undo := AList.update user mine (last_undo s)\<rparr>)"
    using ne(2) by (simp add: res rewrite_ledger_ok [OF assms(6)] len)
  show ?thesis
    by (intro conjI) (rule main, rule ids, rule len)
qed


theorem C9_undo_clamps_witness:
  "undo_last (demo_env 9) ''alice'' 5 demo_labeled =
     ((True, ''ok'', [''a.mp4'', ''c.mp4'']),
      demo_labeled\<lparr>labels_file := Some [Rec demo_r2],
                   tmp_file := None,
                   per_user_counts := [(''alice'', 0), (''bob'', 1)],
                   labeled_ids := {''b.mp4''},
                   balance_sig := None,
                   last_undo := [(''alice'', [demo_r1, demo_r3])]\<rparr>)"
proof -
  have e: "read_ok (demo_env 9)" "tmp_write (demo_env 9) = TmpOk"
    by (simp_all add: demo_env_def)
  have n: "''alice'' \<noteq> []"
    by simp
  have m: "1 \<le> length (filter (\<lambda>r. rec_user r = Some ''alice'')
                                 (records_of [Rec demo_r1, Rec demo_r2, Blank, Rec demo_r3]))"
      "int (length (filter (\<lambda>r. rec_user r = Some ''alice'')
                                 (records_of [Rec demo_r1, Rec demo_r2, Blank, Rec demo_r3]))) < 5"
      "\<forall>r \<in> set (filter (\<lambda>r. rec_user r = Some ''alice'')
                                 (records_of [Rec demo_r1, Rec demo_r2, Blank, Rec demo_r3])).
          truthy (rec_id r)"
    by (simp_all add: demo_records truthy_def)
  have l: "labeled_ids demo_labeled - {''a.mp4'', ''c.mp4''} = {''b.mp4''}"
    by (auto simp: demo_labeled_def)
  have c: "AList.update ''alice'' (max 0 (dict_get (per_user_counts demo_labeled) ''alice'' 0 - 2))
             (per_user_counts demo_labeled) = [(''alice'', 0), (''bob'', 1)]"
     "AList.update ''alice'' [demo_r1, demo_r3] (last_undo demo_labeled) = [(''alice'', [demo_r1, demo_r3])]"
    by (simp_all add: demo_labeled_def dict_get_def)
  note inst = C9_undo_clamps [OF n demo_labeled_file(1) e(1) demo_labeled_rows(1) e(2) m,
      unfolded demo_labeled_file(3) demo_labeled_rows]
  have two: "int (length [demo_r1, demo_r3]) = 2" "set [''a.mp4'', ''c.mp4''] = {''a.mp4'', ''c.mp4''}"
    by simp_all
  from inst show ?thesis
    by (simp only: two l c map_append list.map append_Nil append_Cons)
qed

lemma rewrite_ledger_fault:
  assumes "tmp_write e \<noteq> TmpOk"
  shows "\<not> fst (rewrite_ledger e rows s)"
    and "(snd (rewrite_ledger e rows s))\<lparr>tmp_file := tmp_file s\<rparr> = s"
    and "cleanup_ok e \<Longrightarrow> tmp_file (snd (rewrite_ledger e rows s)) = None"
  using rewrite_ledger_fails_frame [OF assms, of rows s] rewrite_ledger_fails [OF assms, of rows s]
  by simp_all

text \<open>
  Claim C4. When the rewrite of \<open>remove_label\<close> or of \<open>undo_last\<close> is reached and fails
  (opening or writing the temporary file, or the replace itself), the call answers
  \<open>failed to write\<close>, and the ledger file and every field in memory are as before: the state
  differs from the old one in the temporary file at most. The temporary file is gone
  afterwards whenever the \<open>os.remove\<close> of the cleanup succeeds.
\<close>

theorem C4_rewrite_failure:
  fixes s :: state and user :: string and ls :: "line list" and count :: int
  assumes fault: "tmp_write e \<noteq> TmpOk"
    and "user \<noteq> []" and "labels_file s = Some ls" and "read_ok e" and "NonDict \<notin> set ls"
  shows "(vid \<noteq> [] \<and> (\<exists>r \<in> set (records_of ls). rec_user r = Some user \<and> rec_id r = Some vid)
            \<longrightarrow> fst (remove_label e user vid s) = (False, ''failed to write'')
                \<and> (snd (remove_label e user vid s))\<lparr>tmp_file := tmp_file s\<rparr> = s
                \<and> (cleanup_ok e \<longrightarrow> tmp_file (snd (remove_label e user vid s)) = None))
       \<and> (0 < count \<and> (\<exists>r \<in> set (records_of ls). rec_user r = Some user)
            \<longrightarrow> fst (undo_last e user count s) = (False, ''failed to write'', [])
                \<and> (snd (undo_last e user count s))\<lparr>tmp_file := tmp_file s\<rparr> = s
                \<and> (cleanup_ok e \<longrightarrow> tmp_file (snd (undo_last e user count s)) = None))"
proof (intro conjI impI)
  assume a: "vid \<noteq> [] \<and> (\<exists>r \<in> set (records_of ls). rec_user r = Some user \<and> rec_id r = Some vid)"
  then obtain pre r post where split: "records_of ls = pre @ r # post"
    and hit: "rec_user r = Some user" "rec_id r = Some vid"
    and first: "\<forall>q \<in> set pre. \<not> (rec_user q = Some user \<and> rec_id q = Some vid)"
    using split_list_first_prop [of "records_of ls" "\<lambda>r. rec_user r = Some user \<and> rec_id r = Some vid"]
    by blast
  have scan: "remove_scan user vid ls [] 0 = Some (pre @ post, 1)"
    using remove_scan_first [OF assms(5) split first hit, of "[]"] by simp
  have rm: "remove_label e user vid s =
              ((False, ''failed to write''), snd (rewrite_ledger e (pre @ post) s))"
    using a assms(2-4) scan rewrite_ledger_fault(1) [OF fault, of "pre @ post" s]
    by (simp add: remove_label_def case_prod_unfold)
  show "fst (remove_label e user vid s) = (False, ''failed to write'')"
    by (simp add: rm)
  show "(snd (remove_label e user vid s))\<lparr>tmp_file := tmp_file s\<rparr> = s"
    by (simp only: rm snd_conv rewrite_ledger_fault(2) [OF fault])
  show "tmp_file (snd (remove_label e user vid s)) = None" if "cleanup_ok e"
    by (simp only: rm snd_conv rewrite_ledger_fault(3) [OF fault that])
next
  assume a: "0 < count \<and> (\<exists>r \<in> set (records_of ls). rec_user r = Some user)"
  then have ne: "filter (\<lambda>r. rec_user r = Some user) (records_of ls) \<noteq> []"
    by (auto simp: filter_empty_conv)
  from a have pos: "0 < count"
    by simp
  note res = undo_last_result [OF assms(2) pos assms(3-5) ne]
  obtain kept where un: "undo_last e user count s =
              ((False, ''failed to write'', []), snd (rewrite_ledger e kept s))"
    using res rewrite_ledger_fault(1) [OF fault] by simp
  show "fst (undo_last e user count s) = (False, ''failed to write'', [])"
    by (simp add: un)
  show "(snd (undo_last e user count s))\<lparr>tmp_file := tmp_file s\<rparr> = s"
    by (simp only: un snd_conv rewrite_ledger_fault(2) [OF fault])
  show "tmp_file (snd (undo_last e user count s)) = None" if "cleanup_ok e"
    by (simp only: un snd_conv rewrite_ledger_fault(3) [OF fault that])
qed


theorem C4_rewrite_failure_witness:
  "tmp_write demo_fault = TmpWriteFail 1 \<and> cleanup_ok demo_fault
   \<and> remove_label demo_fault ''alice'' ''c.mp4'' demo_labeled = ((False, ''failed to write''), demo_labeled)
   \<and> undo_last demo_fault ''alice'' 1 demo_labeled = ((False, ''failed to write'', []), demo_labeled)"
proof -
  have f: "tmp_write demo_fault \<noteq> TmpOk" "read_ok demo_fault" "cleanup_ok demo_fault"
      "tmp_write demo_fault = TmpWriteFail 1"
    by (simp_all add: demo_fault_def demo_env_def)
  have n: "''alice'' \<noteq> []"
    by simp
  have t: "tmp_file demo_labeled = None"
    by (simp add: demo_labeled_def)
  note inst = C4_rewrite_failure [OF f(1) n demo_labeled_file(1) f(2) demo_labeled_rows(1),
      of "''c.mp4''" 1, unfolded demo_labeled_file(3)]
  have rm: "fst (remove_label demo_fault ''alice'' ''c.mp4'' demo_labeled) = (False, ''failed to write'')"
      "(snd (remove_label demo_fault ''alice'' ''c.mp4'' demo_labeled))\<lparr>tmp_file := None\<rparr> = demo_labeled"
      "tmp_file (snd (remove_label demo_fault ''alice'' ''c.mp4'' demo_labeled)) = None"
    using inst f(3) by (simp_all add: demo_records t)
  have un: "fst (undo_last demo_fault ''alice'' 1 demo_labeled) = (False, ''failed to write'', [])"
      "(snd (undo_last demo_fault ''alice'' 1 demo_labeled))\<lparr>tmp_file := None\<rparr> = demo_labeled"
      "tmp_file (snd (undo_last demo_fault ''alice'' 1 demo_labeled)) = None"
    using inst f(3) by (simp_all add: demo_records t)
  have same: "t = demo_labeled" if "t\<lparr>tmp_file := None\<rparr> = demo_labeled" "tmp_file t = None" for t
    using that by (cases t) simp
  show ?thesis
    using rm(1) un(1) f(3,4) same [OF rm(2,3)] same [OF un(2,3)] by (simp add: prod_eq_iff)
qed

section \<open>Undo followed by redo\<close>

lemma records_of_map_Rec: "records_of (map Rec rs) = rs"
  by (induction rs) auto

lemma records_of_append: "records_of (xs @ ys) = records_of xs @ records_of ys"
  by (induction xs rule: records_of.induct) auto

lemma ids_of_simps:
  "ids_of [] = []"
  "ids_of (r # rs) = (case rec_id r of None \<Rightarrow> [] | Some vid \<Rightarrow> if vid = [] then [] else [vid]) @ ids_of rs"
  by (simp_all add: ids_of_def)

lemma ids_of_member:
  assumes "r \<in> set rs" "rec_id r = Some v" "v \<noteq> []"
  shows "v \<in> set (ids_of rs)"
proof -
  have "v \<in> set (case rec_id r of None \<Rightarrow> [] | Some vid \<Rightarrow> if vid = [] then [] else [vid])"
    using assms(2,3) by simp
  with assms(1) show ?thesis
    unfolding ids_of_def set_concat by (intro UN_I [of "(case rec_id r of None \<Rightarrow> [] | Some vid \<Rightarrow> if vid = [] then [] else [vid])"]) simp_all
qed

lemma ids_of_nonempty: "rs \<noteq> [] \<Longrightarrow> \<forall>r \<in> set rs. truthy (rec_id r) \<Longrightarrow> ids_of rs \<noteq> []"
  by (cases rs) (auto simp: ids_of_def truthy_def split: option.splits)

lemma redo_loop_all:
  assumes "\<forall>r \<in> set batch. truthy (rec_id r)"
    and "SINGLE_LABEL_PER_VIDEO cfg \<longrightarrow>
           distinct (map rec_id batch) \<and> (\<forall>r \<in> set batch. \<forall>v. rec_id r = Some v \<longrightarrow> v \<notin> labeled_ids s)"
  shows "fst (redo_loop cfg None user batch n s)
       \<and> fst (snd (redo_loop cfg None user batch n s)) = n + length batch
       \<and> labels_file (snd (snd (redo_loop cfg None user batch n s)))
           = (if batch = [] then labels_file s else Some (file_lines (labels_file s) @ map Rec batch))
       \<and> labeled_ids (snd (snd (redo_loop cfg None user batch n s))) = labeled_ids s \<union> set (ids_of batch)
       \<and> dict_get (per_user_counts (snd (snd (redo_loop cfg None user batch n s)))) user 0
           = dict_get (per_user_counts s) user 0 + int (length batch)"
  using assms
proof (induction batch arbitrary: n s)
  case Nil
  then show ?case by (simp add: ids_of_def)
next
  case (Cons r rs)
  from Cons.prems(1) obtain v where v: "rec_id r = Some v" "v \<noteq> []"
    by (auto simp: truthy_def split: option.splits)
  have noskip: "\<not> (SINGLE_LABEL_PER_VIDEO cfg \<and> v \<in> labeled_ids s)"
    using Cons.prems(2) v by auto
  let ?s = "s\<lparr>labels_file := Some (file_lines (labels_file s) @ [Rec r]),
               per_user_counts :=
                 AList.update user (dict_get (per_user_counts s) user 0 + 1) (per_user_counts s),
               labeled_ids := insert v (labeled_ids s)\<rparr>"
  have step: "redo_loop cfg None user (r # rs) n s = redo_loop cfg None user rs (n + 1) ?s"
    using noskip v by auto
  have p1: "\<forall>r \<in> set rs. truthy (rec_id r)"
    using Cons.prems(1) by simp
  have p2: "SINGLE_LABEL_PER_VIDEO cfg \<longrightarrow>
           distinct (map rec_id rs) \<and> (\<forall>q \<in> set rs. \<forall>w. rec_id q = Some w \<longrightarrow> w \<notin> labeled_ids ?s)"
    using Cons.prems(2) v by (auto simp: image_iff)
  have ids: "ids_of (r # rs) = v # ids_of rs"
    using v by (simp add: ids_of_def)
  from Cons.IH [OF p1 p2, of "n + 1"] show ?case
    by (simp only: step ids) (simp add: file_lines_def dict_get_def update_conv')
qed


lemma redo_last_unfold:
  assumes "user \<noteq> []" "map_of (last_undo s) user = Some batch" "batch \<noteq> []"
    "fst (redo_loop cfg (append_fail e) user batch 0 s)" "append_fail e \<noteq> Some 0"
  shows "redo_last cfg e user s =
           ((True, ''ok'', fst (snd (redo_loop cfg (append_fail e) user batch 0 s))),
            (snd (snd (redo_loop cfg (append_fail e) user batch 0 s)))
              \<lparr>last_undo := AList.update user [] (last_undo (snd (snd (redo_loop cfg (append_fail e) user batch 0 s)))),
               balance_sig := None\<rparr>)"
  using assms by (simp add: redo_last_def case_prod_unfold Let_def)

text \<open>
  Claim C7, as the code runs it. Let the (nonempty) user have at least one record, let
  the batch be the last \<open>min(count, m)\<close> of the user's \<open>m\<close> records, each with an item
  identifier, and in single-label mode let no two records of the batch name the same
  item. With a readable ledger and successful writes, \<open>undo_last\<close> leaves the other
  records \<open>kept\<close> and stores the batch; \<open>redo_last\<close> right after it appends the whole batch in
  its order, so the ledger is \<open>kept @ batch\<close>: the same records as before the undo, each as
  often as before.
\<close>

theorem C7_undo_redo:
  fixes s :: state and user :: string and ls :: "line list" and count :: int
    and e1 e2 :: env and cfg :: config
  defines "mine \<equiv> filter (\<lambda>r. rec_user r = Some user) (records_of ls)"
  defines "batch \<equiv> drop (length mine - nat (min count (int (length mine)))) mine"
  defines "s1 \<equiv> snd (undo_last e1 user count s)"
  defines "s2 \<equiv> snd (redo_last cfg e2 user s1)"
  assumes "user \<noteq> []" and "1 \<le> count"
    and "labels_file s = Some ls" and "read_ok e1" and "NonDict \<notin> set ls"
    and "tmp_write e1 = TmpOk" and "append_fail e2 = None"
    and "mine \<noteq> []"
    and "\<forall>r \<in> set batch. truthy (rec_id r)"
    and "SINGLE_LABEL_PER_VIDEO cfg \<longrightarrow> distinct (map rec_id batch)"
  shows "\<exists>kept. fst (undo_last e1 user count s) = (True, ''ok'', ids_of batch)
              \<and> labels_file s1 = Some (map Rec kept)
              \<and> map_of (last_undo s1) user = Some batch
              \<and> fst (redo_last cfg e2 user s1) = (True, ''ok'', length batch)
              \<and> labels_file s2 = Some (map Rec (kept @ batch))
              \<and> (\<forall>r. count_list (kept @ batch) r = count_list (records_of ls) r)
              \<and> set (records_of (file_lines (labels_file s2))) = set (records_of ls)"
proof -
  define d where "d = length mine - nat (min count (int (length mine)))"
  define R where "R = set (drop d (map fst (filter (\<lambda>(i, r). rec_user r = Some user)
                                             (enumerate 0 (records_of ls)))))"
  define kept where "kept = map snd (filter (\<lambda>(i, r). i \<notin> R) (enumerate 0 (records_of ls)))"
  have pos: "0 < count"
    using assms(6) by simp
  have b: "batch = drop d mine"
    by (simp add: batch_def d_def)
  have "d < length mine"
    using assms(6,12) by (auto simp: d_def min_def)
  then have bne: "batch \<noteq> []"
    by (simp add: b)
  then have ine: "ids_of batch \<noteq> []"
    using assms(13) by (rule ids_of_nonempty)
  note res = undo_last_result [OF assms(5) pos assms(7-9) assms(12) [unfolded mine_def],
      folded mine_def, folded d_def, folded R_def, folded kept_def, folded b]
  have undo: "undo_last e1 user count s =
           ((True, ''ok'', ids_of batch),
            s\<lparr>labels_file := Some (map Rec kept), tmp_file := None,
              per_user_counts :=
                AList.update user (max 0 (dict_get (per_user_counts s) user 0 - int (length (ids_of batch))))
                  (per_user_counts s),
              labeled_ids := labeled_ids s - set (ids_of batch),
              balance_sig := None,
              last_undo := AList.update user batch (last_undo s)\<rparr>)"
    using ine by (simp add: res rewrite_ledger_ok [OF assms(10)])
  have f1: "labels_file s1 = Some (map Rec kept)"
    and l1: "labeled_ids s1 = labeled_ids s - set (ids_of batch)"
    and u1: "map_of (last_undo s1) user = Some batch"
    by (simp_all add: s1_def undo update_conv')
  have fresh: "SINGLE_LABEL_PER_VIDEO cfg \<longrightarrow>
           distinct (map rec_id batch) \<and> (\<forall>r \<in> set batch. \<forall>v. rec_id r = Some v \<longrightarrow> v \<notin> labeled_ids s1)"
  proof (intro impI conjI ballI allI)
    assume "SINGLE_LABEL_PER_VIDEO cfg"
    then show "distinct (map rec_id batch)"
      using assms(14) by simp
  next
    fix r v
    assume r: "r \<in> set batch" "rec_id r = Some v"
    with assms(13) have "v \<noteq> []"
      by (auto simp: truthy_def)
    with r have "v \<in> set (ids_of batch)"
      by (intro ids_of_member)
    then show "v \<notin> labeled_ids s1"
      by (simp add: l1)
  qed
  note loop = redo_loop_all [OF assms(13) fresh, of user 0]
  have redo: "redo_last cfg e2 user s1 =
           ((True, ''ok'', fst (snd (redo_loop cfg None user batch 0 s1))),
            (snd (snd (redo_loop cfg None user batch 0 s1)))
              \<lparr>last_undo := AList.update user [] (last_undo (snd (snd (redo_loop cfg None user batch 0 s1)))),
               balance_sig := None\<rparr>)"
    using redo_last_unfold [OF assms(5) u1 bne, of cfg e2] loop by (simp add: assms(11))
  have r1: "fst (redo_last cfg e2 user s1) = (True, ''ok'', length batch)"
    using loop by (simp add: redo)
  have f2: "labels_file s2 = Some (map Rec (kept @ batch))"
    using loop bne by (simp add: s2_def redo f1 file_lines_def)
  have cnt: "count_list (kept @ batch) r = count_list (records_of ls) r" for r
    using split_count [of R 0 "records_of ls" r]
      selected_batch [of d "\<lambda>r. rec_user r = Some user" 0 "records_of ls"]
    by (simp add: kept_def R_def b mine_def)
  have "set (kept @ batch) = set (records_of ls)"
  proof (rule set_eqI)
    fix r
    show "(r \<in> set (kept @ batch)) = (r \<in> set (records_of ls))"
      using cnt [of r] count_list_0_iff [of "kept @ batch" r] count_list_0_iff [of "records_of ls" r]
      by metis
  qed
  then have st: "set (records_of (file_lines (labels_file s2))) = set (records_of ls)"
    by (simp only: f2 file_lines_def option.case records_of_map_Rec)
  have "fst (undo_last e1 user count s) = (True, ''ok'', ids_of batch)"
    by (simp add: undo)
  with f1 u1 r1 f2 cnt st show ?thesis
    by blast
qed


theorem C7_undo_redo_witness:
  "fst (undo_last (demo_env 10) ''alice'' 1 demo_labeled) = (True, ''ok'', [''c.mp4''])
   \<and> fst (redo_last demo_cfg (demo_env 11) ''alice'' (snd (undo_last (demo_env 10) ''alice'' 1 demo_labeled)))
       = (True, ''ok'', 1)
   \<and> set (records_of (file_lines (labels_file
          (snd (redo_last demo_cfg (demo_env 11) ''alice''
                  (snd (undo_last (demo_env 10) ''alice'' 1 demo_labeled)))))))
       = {demo_r1, demo_r2, demo_r3}"
proof -
  have e: "read_ok (demo_env 10)" "tmp_write (demo_env 10) = TmpOk" "append_fail (demo_env 11) = None"
    by (simp_all add: demo_env_def)
  have n: "''alice'' \<noteq> []" "(1::int) \<le> 1"
    by simp_all
  have mine: "filter (\<lambda>r. rec_user r = Some ''alice'') (records_of [Rec demo_r1, Rec demo_r2, Blank, Rec demo_r3])
                = [demo_r1, demo_r3]"
    by (simp add: demo_records)
  have batch: "drop (length [demo_r1, demo_r3] - nat (min 1 (int (length [demo_r1, demo_r3])))) [demo_r1, demo_r3]
                 = [demo_r3]"
    by simp
  have h: "[demo_r1, demo_r3] \<noteq> []" "\<forall>r \<in> set [demo_r3]. truthy (rec_id r)"
      "SINGLE_LABEL_PER_VIDEO demo_cfg \<longrightarrow> distinct (map rec_id [demo_r3])"
    by (simp_all add: demo_records truthy_def)
  note inst = C7_undo_redo [OF n demo_labeled_file(1) e(1) demo_labeled_rows(1) e(2,3),
      of demo_cfg, unfolded mine batch, OF h]
  have "ids_of [demo_r3] = [''c.mp4'']"
    by (simp add: ids_of_def demo_records)
  with inst show ?thesis
    by (auto simp: demo_labeled_file(3))
qed

lemma demo_twice_eq:
  "demo_twice =
     \<lparr>videos = [''a.mp4'', ''b.mp4'', ''c.mp4''], assigned = [], labeled_ids = {''a.mp4''},
      per_user_counts = [(''alice'', 2)], active_users = {}, owner_map = [], balance_sig = None,
      last_undo = [], labels_file = Some [Rec demo_q1, Rec demo_q2], tmp_file = None\<rparr>"
  by (simp add: demo_twice_def record_label_def init_state_def demo_env_def demo_catalog submit_def
      demo_q1_def demo_q2_def file_lines_def dict_get_def Let_def AList.delete_eq)

lemma demo_q_fields:
  "rec_user demo_q1 = Some ''alice''" "rec_user demo_q2 = Some ''alice''"
  "rec_id demo_q1 = Some ''a.mp4''" "rec_id demo_q2 = Some ''a.mp4''"
  "demo_q1 \<noteq> demo_q2"
  by (simp_all add: demo_q1_def demo_q2_def submit_def)

lemma demo_twice_undo:
  "undo_last (demo_env 3) ''alice'' 2 demo_twice =
     ((True, ''ok'', [''a.mp4'', ''a.mp4'']),
      \<lparr>videos = [''a.mp4'', ''b.mp4'', ''c.mp4''], assigned = [], labeled_ids = {},
       per_user_counts = [(''alice'', 0)], active_users = {}, owner_map = [], balance_sig = None,
       last_undo = [(''alice'', [demo_q1, demo_q2])], labels_file = Some [], tmp_file = None\<rparr>)"
  by (simp add: demo_twice_eq undo_last_def demo_env_def demo_q_fields rewrite_ledger_def
      dict_get_def Let_def)

text \<open>
  In single-label mode \<open>redo_last\<close> skips a record whose item is already in the labeled
  set, and the first record of a batch puts its item there. When alice has labeled
  \<open>a.mp4\<close> twice, undoing both records and redoing at once brings back only the first.
\<close>

theorem C7_undo_redo_counterexample:
  "SINGLE_LABEL_PER_VIDEO demo_cfg
   \<and> labels_file demo_twice = Some [Rec demo_q1, Rec demo_q2]
   \<and> demo_q1 \<noteq> demo_q2
   \<and> fst (undo_last (demo_env 3) ''alice'' 2 demo_twice) = (True, ''ok'', [''a.mp4'', ''a.mp4''])
   \<and> fst (redo_last demo_cfg (demo_env 4) ''alice'' (snd (undo_last (demo_env 3) ''alice'' 2 demo_twice)))
       = (True, ''ok'', 1)
   \<and> labels_file (snd (redo_last demo_cfg (demo_env 4) ''alice''
                          (snd (undo_last (demo_env 3) ''alice'' 2 demo_twice))))
       = Some [Rec demo_q1]"
  by (simp add: demo_twice_undo)
     (simp add: demo_twice_eq redo_last_def demo_cfg_def demo_env_def demo_q_fields file_lines_def
        dict_get_def Let_def)

section \<open>The ownership map and the labeled set\<close>

lemma balance_inv_fresh:
  assumes "finite (labeled_ids t)" "balance_sig t = None"
  shows "balance_inv t"
  using assms by (simp add: balance_inv_def)

lemma balance_inv_grow:
  assumes "balance_inv s" "finite (labeled_ids t)"
    and "labeled_ids s \<subseteq> labeled_ids t" "balance_sig t = balance_sig s" "owner_map t = owner_map s"
  shows "balance_inv t"
proof (cases "balance_sig s")
  case None
  with assms(2,4) show ?thesis
    by (simp add: balance_inv_def)
next
  case (Some sg)
  obtain P nv nl where sg: "sg = (P, nv, nl)"
    by (cases sg) auto
  with assms(1) Some obtain L where L: "L \<subseteq> labeled_ids s" "card L = nl"
      "fst ` set (owner_map s) \<inter> L = {}"
    by (auto simp: balance_inv_def)
  have "L \<subseteq> labeled_ids t \<and> card L = nl \<and> fst ` set (owner_map t) \<inter> L = {}"
    using L assms(3,5) by auto
  then have "\<exists>L. L \<subseteq> labeled_ids t \<and> card L = nl \<and> fst ` set (owner_map t) \<inter> L = {}"
    by (rule exI)
  with assms(2,4) Some sg show ?thesis
    by (simp add: balance_inv_def)
qed

lemma balance_inv_step:
  assumes "balance_inv s" "finite (labeled_ids t)"
    and "balance_sig t = None
         \<or> (labeled_ids s \<subseteq> labeled_ids t \<and> balance_sig t = balance_sig s \<and> owner_map t = owner_map s)"
  shows "balance_inv t"
  using assms balance_inv_fresh [of t] balance_inv_grow [of s t] by blast

lemma assign_owners_keys:
  "fst ` set (assign_owners queue qi vids om) = fst ` set om \<union> set vids"
proof (induction vids arbitrary: qi om)
  case Nil
  show ?case by simp
next
  case (Cons v vs)
  show ?case
    by (simp only: assign_owners.simps Cons.IH dom_update) auto
qed

lemma recompute_fields:
  "labeled_ids (recompute s) = labeled_ids s"
  "balance_sig (recompute s) = Some (participants_of s, length (videos s), card (labeled_ids s))"
  "fst ` set (owner_map (recompute s)) \<subseteq> {v \<in> set (videos s). v \<notin> labeled_ids s}"
  by (simp_all add: recompute_def Let_def assign_owners_keys)

lemma rebalance_labeled: "labeled_ids (rebalance_if_needed s) = labeled_ids s"
  by (simp add: rebalance_if_needed_def recompute_fields)

lemma rebalance_disjoint:
  assumes "balance_inv s"
  shows "fst ` set (owner_map (rebalance_if_needed s)) \<inter> labeled_ids s = {}"
proof (cases "balance_fresh s")
  case True
  then have sig: "balance_sig s = Some (participants_of s, length (videos s), card (labeled_ids s))"
    by (simp add: balance_fresh_def)
  with assms obtain L where L: "L \<subseteq> labeled_ids s" "card L = card (labeled_ids s)"
      "fst ` set (owner_map s) \<inter> L = {}" and fin: "finite (labeled_ids s)"
    by (auto simp: balance_inv_def)
  from fin L(1,2) have "L = labeled_ids s"
    by (rule card_subset_eq)
  with L(3) True show ?thesis
    by (simp add: rebalance_if_needed_def)
next
  case False
  with recompute_fields(3) [of s] show ?thesis
    by (auto simp: rebalance_if_needed_def)
qed

lemma rebalance_inv:
  assumes "balance_inv s"
  shows "balance_inv (rebalance_if_needed s)"
proof (cases "balance_fresh s")
  case True
  with assms show ?thesis
    by (simp add: rebalance_if_needed_def)
next
  case False
  have d: "fst ` set (owner_map (recompute s)) \<inter> labeled_ids s = {}"
    using recompute_fields(3) [of s] by auto
  have fin: "finite (labeled_ids s)"
    using assms by (simp add: balance_inv_def)
  have "labeled_ids s \<subseteq> labeled_ids s \<and> card (labeled_ids s) = card (labeled_ids s)
        \<and> fst ` set (owner_map (recompute s)) \<inter> labeled_ids s = {}"
    using d by simp
  then have "\<exists>L. L \<subseteq> labeled_ids s \<and> card L = card (labeled_ids s)
        \<and> fst ` set (owner_map (recompute s)) \<inter> L = {}"
    by (rule exI)
  then have "balance_inv (recompute s)"
    using fin by (simp add: balance_inv_def recompute_fields(1,2))
  with False show ?thesis
    by (simp add: rebalance_if_needed_def)
qed


lemma eligible_fields:
  "labeled_ids (snd (eligible_videos cfg w now s)) = labeled_ids s"
  "balance_sig (snd (eligible_videos cfg w now s)) = balance_sig s"
  "owner_map (snd (eligible_videos cfg w now s)) = owner_map s"
  by (simp_all add: eligible_videos_def prune_assignments_def Let_def)

lemma rewrite_fields:
  "labeled_ids (snd (rewrite_ledger e rows s)) = labeled_ids s"
  "balance_sig (snd (rewrite_ledger e rows s)) = balance_sig s"
  "owner_map (snd (rewrite_ledger e rows s)) = owner_map s"
  by (cases "tmp_write e"; simp add: rewrite_ledger_def Let_def)+

lemma redo_loop_fields:
  "finite (labeled_ids s) \<Longrightarrow>
     finite (labeled_ids (snd (snd (redo_loop cfg fail user batch n s))))
     \<and> labeled_ids s \<subseteq> labeled_ids (snd (snd (redo_loop cfg fail user batch n s)))
     \<and> balance_sig (snd (snd (redo_loop cfg fail user batch n s))) = balance_sig s
     \<and> owner_map (snd (snd (redo_loop cfg fail user batch n s))) = owner_map s"
proof (induction cfg fail user batch n s rule: redo_loop.induct)
  case (1 cfg fail user appended s)
  then show ?case by simp
next
  case (2 cfg fail user r rs appended s)
  show ?case
  proof (cases "SINGLE_LABEL_PER_VIDEO cfg \<and> (case rec_id r of None \<Rightarrow> False | Some vid \<Rightarrow> vid \<in> labeled_ids s)")
    case True
    with 2 show ?thesis by simp
  next
    case skip: False
    show ?thesis
    proof (cases "fail = Some appended")
      case True
      with skip 2 show ?thesis by simp
    next
      case False
      let ?t = "s\<lparr>labels_file := Some (file_lines (labels_file s) @ [Rec r]),
               per_user_counts :=
                 AList.update user (dict_get (per_user_counts s) user 0 + 1) (per_user_counts s),
               labeled_ids :=
                 (case rec_id r of
                    None \<Rightarrow> labeled_ids s
                  | Some vid \<Rightarrow> if vid = [] then labeled_ids s else insert vid (labeled_ids s))\<rparr>"
      have t: "finite (labeled_ids ?t)" "labeled_ids s \<subseteq> labeled_ids ?t"
        "balance_sig ?t = balance_sig s" "owner_map ?t = owner_map s"
        using "2.prems" by (auto split: option.splits)
      have eq: "redo_loop cfg fail user (r # rs) appended s = redo_loop cfg fail user rs (appended + 1) ?t"
        using skip False by (simp only: redo_loop.simps if_False)
      from "2.IH"(2) [OF skip False t(1)] t(2-4) show ?thesis
        unfolding eq by auto
    qed
  qed
qed

lemma load_lines_fields:
  "finite (labeled_ids s) \<Longrightarrow>
     finite (labeled_ids (load_lines ls s)) \<and> balance_sig (load_lines ls s) = balance_sig s"
  by (induction ls s rule: load_lines.induct) (simp_all split: option.splits)

lemma init_state_inv: "balance_inv (init_state e ledger tmp)"
proof -
  let ?s0 = "\<lparr>videos = scan_videos (walk1 e), assigned = [], labeled_ids = {},
                per_user_counts = [], active_users = {}, owner_map = [], balance_sig = None,
                last_undo = [], labels_file = ledger, tmp_file = tmp\<rparr>"
  have "finite (labeled_ids (load_lines ls ?s0)) \<and> balance_sig (load_lines ls ?s0) = None" for ls
    using load_lines_fields [of ?s0 ls] by simp
  then show ?thesis
    by (auto simp: init_state_def Let_def intro!: balance_inv_fresh split: option.splits)
qed


lemma balance_inv_same:
  assumes "balance_inv s" "labeled_ids t = labeled_ids s" "balance_sig t = balance_sig s"
    "owner_map t = owner_map s"
  shows "balance_inv t"
  by (rule balance_inv_grow [OF assms(1)]) (use assms in \<open>simp_all add: balance_inv_def\<close>)

lemma eligible_inv: "balance_inv s \<Longrightarrow> balance_inv (snd (eligible_videos cfg w now s))"
  by (erule balance_inv_same) (simp_all add: eligible_fields)

lemma request_inv:
  assumes "balance_inv s"
  shows "balance_inv (rebalance_if_needed (s\<lparr>videos := vs, active_users := us\<rparr>))"
  by (rule rebalance_inv, rule balance_inv_same [OF assms]) simp_all

lemma request_disjoint:
  assumes "balance_inv s"
  shows "fst ` set (owner_map (rebalance_if_needed (s\<lparr>videos := vs, active_users := us\<rparr>)))
           \<inter> labeled_ids s = {}"
  using rebalance_disjoint [of "s\<lparr>videos := vs, active_users := us\<rparr>"] balance_inv_same [OF assms]
  by simp

lemma assign_next_fields:
  "labeled_ids (snd (assign_next cfg e user s)) = labeled_ids s"
  "balance_sig (snd (assign_next cfg e user s))
     = balance_sig (rebalance_if_needed (s\<lparr>videos := scan_videos (walk1 e),
                                           active_users := insert user (active_users s)\<rparr>))"
  "owner_map (snd (assign_next cfg e user s))
     = owner_map (rebalance_if_needed (s\<lparr>videos := scan_videos (walk1 e),
                                         active_users := insert user (active_users s)\<rparr>))"
  by (simp_all add: assign_next_def Let_def case_prod_unfold eligible_fields rebalance_labeled
      split: option.splits)

lemma peek_next_for_user_fields:
  "labeled_ids (snd (peek_next_for_user cfg e user s)) = labeled_ids s"
  "balance_sig (snd (peek_next_for_user cfg e user s))
     = balance_sig (rebalance_if_needed (s\<lparr>videos := scan_videos (walk1 e),
                                           active_users := insert user (active_users s)\<rparr>))"
  "owner_map (snd (peek_next_for_user cfg e user s))
     = owner_map (rebalance_if_needed (s\<lparr>videos := scan_videos (walk1 e),
                                         active_users := insert user (active_users s)\<rparr>))"
  by (simp_all add: peek_next_for_user_def Let_def case_prod_unfold eligible_fields rebalance_labeled)

lemma get_user_stats_fields:
  assumes "u \<noteq> []"
  shows "labeled_ids (snd (get_user_stats cfg e (Some u) s)) = labeled_ids s"
  "balance_sig (snd (get_user_stats cfg e (Some u) s))
     = balance_sig (rebalance_if_needed (s\<lparr>videos := scan_videos (walk1 e),
                                           active_users := insert u (active_users s)\<rparr>))"
  "owner_map (snd (get_user_stats cfg e (Some u) s))
     = owner_map (rebalance_if_needed (s\<lparr>videos := scan_videos (walk1 e),
                                         active_users := insert u (active_users s)\<rparr>))"
  using assms by (simp_all add: get_user_stats_def Let_def rebalance_labeled)

lemma get_user_stats_anonymous:
  "user = None \<or> user = Some [] \<Longrightarrow>
     labeled_ids (snd (get_user_stats cfg e user s)) = labeled_ids s
     \<and> balance_sig (snd (get_user_stats cfg e user s)) = balance_sig s
     \<and> owner_map (snd (get_user_stats cfg e user s)) = owner_map s"
  by (auto simp: get_user_stats_def Let_def)

lemma record_label_step:
  "finite (labeled_ids s) \<Longrightarrow>
     finite (labeled_ids (snd (record_label e p s)))
     \<and> labeled_ids s \<subseteq> labeled_ids (snd (record_label e p s))
     \<and> balance_sig (snd (record_label e p s)) = balance_sig s
     \<and> owner_map (snd (record_label e p s)) = owner_map s"
  by (auto simp: record_label_def Let_def split: option.splits)

lemma remove_label_step:
  "finite (labeled_ids s) \<Longrightarrow>
     finite (labeled_ids (snd (remove_label e user vid s)))
     \<and> (balance_sig (snd (remove_label e user vid s)) = None
        \<or> (labeled_ids s \<subseteq> labeled_ids (snd (remove_label e user vid s))
            \<and> balance_sig (snd (remove_label e user vid s)) = balance_sig s
            \<and> owner_map (snd (remove_label e user vid s)) = owner_map s))"
  by (auto simp: remove_label_def Let_def case_prod_unfold rewrite_fields split: option.splits)

lemma undo_last_step:
  "finite (labeled_ids s) \<Longrightarrow>
     finite (labeled_ids (snd (undo_last e user count s)))
     \<and> (balance_sig (snd (undo_last e user count s)) = None
        \<or> (labeled_ids s \<subseteq> labeled_ids (snd (undo_last e user count s))
            \<and> balance_sig (snd (undo_last e user count s)) = balance_sig s
            \<and> owner_map (snd (undo_last e user count s)) = owner_map s))"
  by (auto simp: undo_last_def Let_def case_prod_unfold rewrite_fields split: option.splits)

lemma redo_last_step:
  assumes "finite (labeled_ids s)"
  shows "finite (labeled_ids (snd (redo_last cfg e user s)))
     \<and> (balance_sig (snd (redo_last cfg e user s)) = None
        \<or> (labeled_ids s \<subseteq> labeled_ids (snd (redo_last cfg e user s))
            \<and> balance_sig (snd (redo_last cfg e user s)) = balance_sig s
            \<and> owner_map (snd (redo_last cfg e user s)) = owner_map s))"
proof (cases "user = [] \<or> map_of (last_undo s) user = None \<or> map_of (last_undo s) user = Some []")
  case True
  then have "snd (redo_last cfg e user s) = s"
    by (auto simp: redo_last_def)
  with assms show ?thesis
    by simp
next
  case False
  then obtain batch where b: "user \<noteq> []" "map_of (last_undo s) user = Some batch" "batch \<noteq> []"
    by auto
  define res where "res = redo_loop cfg (append_fail e) user batch 0 s"
  have f: "finite (labeled_ids (snd (snd res)))" "labeled_ids s \<subseteq> labeled_ids (snd (snd res))"
      "balance_sig (snd (snd res)) = balance_sig s" "owner_map (snd (snd res)) = owner_map s"
    using redo_loop_fields [OF assms, of cfg "append_fail e" user batch 0] by (simp_all add: res_def)
  have "snd (redo_last cfg e user s) =
          (if append_fail e = Some 0 then s
           else if \<not> fst res then snd (snd res)
           else (snd (snd res))\<lparr>last_undo := AList.update user [] (last_undo (snd (snd res))),
                                 balance_sig := None\<rparr>)"
    using b by (simp add: redo_last_def Let_def case_prod_unfold res_def)
  with f assms show ?thesis
    by simp
qed

lemma exec_inv:
  assumes inv: "balance_inv s"
  shows "balance_inv (exec cfg e opn s)"
proof -
  have fin: "finite (labeled_ids s)"
    using inv by (simp add: balance_inv_def)
  show ?thesis
  proof (cases opn)
    case (AssignNext user)
    have "balance_inv (snd (assign_next cfg e user s))"
      by (rule balance_inv_same [OF request_inv [OF inv]])
         (simp_all add: assign_next_fields rebalance_labeled)
    with AssignNext show ?thesis by simp
  next
    case PeekNext
    have "balance_inv (snd (peek_next cfg e s))"
      by (rule balance_inv_same [OF inv])
         (simp_all add: peek_next_def case_prod_unfold Let_def eligible_fields)
    with PeekNext show ?thesis by simp
  next
    case (PeekNextForUser user)
    have "balance_inv (snd (peek_next_for_user cfg e user s))"
      by (rule balance_inv_same [OF request_inv [OF inv]])
         (simp_all add: peek_next_for_user_fields rebalance_labeled)
    with PeekNextForUser show ?thesis by simp
  next
    case (Release vid user)
    have "balance_inv (release vid user s)"
      by (rule balance_inv_same [OF inv]) (simp_all add: release_def split: option.splits)
    with Release show ?thesis by simp
  next
    case (RecordLabel p)
    with balance_inv_step [OF inv, of "snd (record_label e p s)"] record_label_step [OF fin, of e p]
    show ?thesis by simp
  next
    case (RemoveLabel user vid)
    with balance_inv_step [OF inv, of "snd (remove_label e user vid s)"]
      remove_label_step [OF fin, of e user vid]
    show ?thesis by simp
  next
    case (UndoLast user count)
    with balance_inv_step [OF inv, of "snd (undo_last e user count s)"]
      undo_last_step [OF fin, of e user count]
    show ?thesis by simp
  next
    case (RedoLast user)
    with balance_inv_step [OF inv, of "snd (redo_last cfg e user s)"]
      redo_last_step [OF fin, of cfg e user]
    show ?thesis by simp
  next
    case (GetUserStats user)
    show ?thesis
    proof (cases "user = None \<or> user = Some []")
      case True
      from get_user_stats_anonymous [OF this, of cfg e s] GetUserStats show ?thesis
        by (simp add: balance_inv_same [OF inv])
    next
      case False
      then obtain u where u: "user = Some u" "u \<noteq> []"
        by (cases user) auto
      have "balance_inv (snd (get_user_stats cfg e (Some u) s))"
        by (rule balance_inv_same [OF request_inv [OF inv]])
           (simp_all add: get_user_stats_fields [OF u(2)] rebalance_labeled)
      with GetUserStats u show ?thesis by simp
    qed
  qed
qed

lemma reachable_inv: "reachable cfg s \<Longrightarrow> balance_inv s"
  by (induction rule: reachable.induct) (simp_all add: init_state_inv exec_inv)


lemma demo_stale_reachable: "reachable demo_cfg demo_stale"
proof -
  have "reachable demo_cfg (init_state (demo_env 0) None None)"
    by (rule reachable_init)
  then have "reachable demo_cfg (exec demo_cfg (demo_env 0) (AssignNext ''alice'') (init_state (demo_env 0) None None))"
    by (rule reachable_step)
  then have "reachable demo_cfg
               (exec demo_cfg (demo_env 2) (RecordLabel (submit ''alice'' (Some ''a.mp4'') ''ok''))
                  (exec demo_cfg (demo_env 0) (AssignNext ''alice'') (init_state (demo_env 0) None None)))"
    by (rule reachable_step)
  then show ?thesis
    by (simp add: demo_stale_def demo_leased_def)
qed

text \<open>
  Claim C8, as the code runs it. The ownership map is recomputed lazily. In every
  reachable state, running the balancer (\<open>_rebalance_if_needed\<close>) leaves a map that holds
  no labeled item, and so does every call that runs it: \<open>assign_next\<close>,
  \<open>peek_next_for_user\<close> and \<open>get_user_stats\<close> for a user.
\<close>

theorem C8_owner_map:
  assumes "reachable cfg s"
  shows "fst ` set (owner_map (rebalance_if_needed s)) \<inter> labeled_ids (rebalance_if_needed s) = {}
       \<and> (\<forall>e u. fst ` set (owner_map (snd (assign_next cfg e u s)))
                   \<inter> labeled_ids (snd (assign_next cfg e u s)) = {})
       \<and> (\<forall>e u. fst ` set (owner_map (snd (peek_next_for_user cfg e u s)))
                   \<inter> labeled_ids (snd (peek_next_for_user cfg e u s)) = {})
       \<and> (\<forall>e u. u \<noteq> [] \<longrightarrow>
                 fst ` set (owner_map (snd (get_user_stats cfg e (Some u) s)))
                   \<inter> labeled_ids (snd (get_user_stats cfg e (Some u) s)) = {})"
proof -
  have inv: "balance_inv s"
    using assms by (rule reachable_inv)
  have 1: "fst ` set (owner_map (rebalance_if_needed s)) \<inter> labeled_ids (rebalance_if_needed s) = {}"
    using rebalance_disjoint [OF inv] by (simp add: rebalance_labeled)
  have 2: "fst ` set (owner_map (snd (assign_next cfg e u s)))
             \<inter> labeled_ids (snd (assign_next cfg e u s)) = {}" for e u
    using request_disjoint [OF inv] by (simp add: assign_next_fields)
  have 3: "fst ` set (owner_map (snd (peek_next_for_user cfg e u s)))
             \<inter> labeled_ids (snd (peek_next_for_user cfg e u s)) = {}" for e u
    using request_disjoint [OF inv] by (simp add: peek_next_for_user_fields)
  have 4: "fst ` set (owner_map (snd (get_user_stats cfg e (Some u) s)))
             \<inter> labeled_ids (snd (get_user_stats cfg e (Some u) s)) = {}" if "u \<noteq> []" for e u
    using request_disjoint [OF inv] by (simp add: get_user_stats_fields [OF that])
  show ?thesis
    by (intro conjI allI impI) (rule 1, rule 2, rule 3, rule 4)
qed

theorem C8_owner_map_witness:
  "reachable demo_cfg demo_stale
   \<and> fst ` set (owner_map (snd (assign_next demo_cfg (demo_env 3) ''bob'' demo_stale)))
       \<inter> labeled_ids (snd (assign_next demo_cfg (demo_env 3) ''bob'' demo_stale)) = {}"
proof -
  note inst = C8_owner_map [OF demo_stale_reachable, THEN conjunct2, THEN conjunct1, rule_format]
  show ?thesis
    by (rule conjI [OF demo_stale_reachable inst])
qed

lemma demo_stale_eq:
  "demo_stale =
     \<lparr>videos = [''a.mp4'', ''b.mp4'', ''c.mp4''], assigned = [],
      labeled_ids = {''a.mp4''}, per_user_counts = [(''alice'', 1)], active_users = {''alice''},
      owner_map = [(''a.mp4'', ''alice''), (''b.mp4'', ''alice''), (''c.mp4'', ''alice'')],
      balance_sig = Some ([''alice''], 3, 0), last_undo = [],
      labels_file = Some [Rec ((submit ''alice'' (Some ''a.mp4'') ''ok'')\<lparr>rec_ts := Some 2000\<rparr>)],
      tmp_file = None\<rparr>"
  by (simp add: demo_stale_def demo_leased_eq record_label_def submit_def demo_env_def Let_def
      file_lines_def dict_get_def AList.delete_eq)

text \<open>
  \<open>record_label\<close> adds the item to the labeled set and does not touch the ownership map:
  after alice's first request and her label for \<open>a.mp4\<close>, the map still gives \<open>a.mp4\<close> to
  alice.
\<close>

theorem C8_owner_map_counterexample:
  "reachable demo_cfg demo_stale
   \<and> ''a.mp4'' \<in> labeled_ids demo_stale
   \<and> map_of (owner_map demo_stale) ''a.mp4'' = Some ''alice''"
proof -
  have "''a.mp4'' \<in> labeled_ids demo_stale" "map_of (owner_map demo_stale) ''a.mp4'' = Some ''alice''"
    by (simp_all add: demo_stale_eq)
  with demo_stale_reachable show ?thesis
    by (intro conjI)
qed

end
